theory Spec2Isabelle
  imports Main "HOL-Library.Sublist"
begin

section \<open>The retention subsystem of the Playwright automation framework\<close>

text \<open>
  This theory embeds \<^verbatim>\<open>utilities/cleanup_utils.py\<close> (class \<^verbatim>\<open>CleanupUtils\<close>) and
  the two defaults it reads from \<^verbatim>\<open>config/config.py\<close>.  The three directories
  the code works on, and the logger, are the state; every operation takes the state
  and returns the new one together with the way it ended (returned or raised).
\<close>

subsection \<open>The file system and the log\<close>

text \<open>
  A directory is the list of its entries in the order in which the operating system
  lists them (\<^verbatim>\<open>os.listdir\<close> and \<^verbatim>\<open>glob.glob\<close> both read that order).  An entry
  carries what \<^verbatim>\<open>os.stat\<close> tells about it: whether it is a regular file or a
  directory, its modification and creation time, and whether the operating system
  lets it be deleted.  A directory entry stands for the whole tree below it.
  Times are integers; only their order (and, for the fallback token, their
  formatting) is used.  A path that a listing has returned is represented by the
  entry it denotes, so \<^verbatim>\<open>os.path.getmtime\<close>, \<^verbatim>\<open>os.path.getctime\<close> and
  \<^verbatim>\<open>os.path.isdir\<close> read the fields of the entry; the deleting calls go by name
  through the directory as it is at that moment.

  The states of the model are those in which every listed entry is a regular file or
  a directory that \<^verbatim>\<open>os.stat\<close> can read, and in which every modification time is
  one that \<^verbatim>\<open>datetime.fromtimestamp\<close> accepts.  On these states the sort keys
  \<^verbatim>\<open>os.path.getmtime\<close> and \<^verbatim>\<open>os.path.getctime\<close> and the formatting of the
  fallback token return a value.  In the source these three calls are outside every
  \<^verbatim>\<open>try\<close> (the formatting is inside the \<^verbatim>\<open>except\<close> clause, which catches
  nothing of its own): on an entry that cannot be read, such as a dangling
  symbolic link, or on a time out of range, they raise.  Such states are not states of
  the model, and no statement below is about them.
\<close>

datatype kind = File | Dir

record entry =
  name :: string
  kind :: kind
  mtime :: int
  ctime :: int
  removable :: bool

text \<open>
  Each of the three configured paths (\<^verbatim>\<open>DIRECTORY_PATHS\<close>) is missing, is something
  that exists but is not a directory, or is a directory.
\<close>

datatype node = Missing | Regular_file | Directory "entry list"

datatype error = FileNotFoundError | NotADirectoryError | IsADirectoryError | PermissionError
  | IndexError

datatype root = Reports | Logs | Screenshots

datatype level = INFO | ERROR

text \<open>One constructor for each message the code hands to the logger.\<close>

datatype message =
    Dir_missing root
  | Keeping root int
  | Matching int
  | Deleted root string
  | Delete_failed root string error
  | Unknown_strategy string

type_synonym logline = "level \<times> message"

record world =
  reports_dir :: node
  logs_dir :: node
  screenshots_dir :: node
  logged :: "logline list"

datatype outcome = Returned | Raised error

definition info :: "message \<Rightarrow> world \<Rightarrow> world" where
  "info m w = w\<lparr>logged := logged w @ [(INFO, m)]\<rparr>"

definition log_error :: "message \<Rightarrow> world \<Rightarrow> world" where
  "log_error m w = w\<lparr>logged := logged w @ [(ERROR, m)]\<rparr>"

subsection \<open>The library calls the code makes\<close>

text \<open>\<^verbatim>\<open>os.path.exists\<close>: true of a directory and of anything else that is there.\<close>

definition path_exists :: "node \<Rightarrow> bool" where
  "path_exists d = (d \<noteq> Missing)"

text \<open>\<^verbatim>\<open>os.listdir\<close> raises on a path that is missing or is not a directory.\<close>

definition listdir :: "node \<Rightarrow> error + entry list" where
  "listdir d = (case d of
      Missing \<Rightarrow> Inl FileNotFoundError
    | Regular_file \<Rightarrow> Inl NotADirectoryError
    | Directory es \<Rightarrow> Inr es)"

definition isdir :: "entry \<Rightarrow> bool" where
  "isdir e = (kind e = Dir)"

text \<open>
  \<^verbatim>\<open>fnmatch\<close> for patterns made of literal characters and \<^verbatim>\<open>*\<close> (the two patterns
  of the code, \<^verbatim>\<open>*.html\<close> and \<^verbatim>\<open>test_execution_*.log\<close>, have nothing else), on a
  case-sensitive file system.
\<close>

fun fnmatch :: "string \<Rightarrow> string \<Rightarrow> bool" where
  "fnmatch n [] = (n = [])"
| "fnmatch n (p # ps) =
     (if p = CHR ''*'' then list_ex (\<lambda>r. fnmatch r ps) (suffixes n)
      else (case n of [] \<Rightarrow> False | c # cs \<Rightarrow> c = p \<and> fnmatch cs ps))"

definition ishidden :: "string \<Rightarrow> bool" where
  "ishidden p = (case p of [] \<Rightarrow> False | c # cs \<Rightarrow> c = CHR ''.'')"

text \<open>
  \<^verbatim>\<open>glob.glob(os.path.join(d, pat))\<close>: the entries of \<open>d\<close> whose name matches, files
  and directories alike, in listing order; names that start with a dot are left out
  unless the pattern starts with one.  A directory that cannot be read gives the
  empty list, not an error.
\<close>

definition glob :: "node \<Rightarrow> string \<Rightarrow> entry list" where
  "glob d pat = (case d of
      Directory es \<Rightarrow>
        filter (\<lambda>e. (ishidden pat \<or> \<not> ishidden (name e)) \<and> fnmatch (name e) pat) es
    | _ \<Rightarrow> [])"

text \<open>
  \<^verbatim>\<open>xs.sort(key=k, reverse=True)\<close>: descending in the key, and stable (entries with
  equal keys keep their order).
\<close>

definition sort_reverse :: "('a \<Rightarrow> int) \<Rightarrow> 'a list \<Rightarrow> 'a list" where
  "sort_reverse k xs = sort_key (\<lambda>x. - k x) xs"

text \<open>The slices \<^verbatim>\<open>xs[n:]\<close> and \<^verbatim>\<open>xs[:n]\<close>; a negative \<open>n\<close> counts from the end.\<close>

definition slice_from :: "int \<Rightarrow> 'a list \<Rightarrow> 'a list" where
  "slice_from n xs = (if 0 \<le> n then drop (nat n) xs else drop (length xs - nat (- n)) xs)"

definition slice_to :: "int \<Rightarrow> 'a list \<Rightarrow> 'a list" where
  "slice_to n xs = (if 0 \<le> n then take (nat n) xs else take (length xs - nat (- n)) xs)"

text \<open>\<^verbatim>\<open>v or d\<close> on an optional integer: \<^verbatim>\<open>None\<close> and \<^verbatim>\<open>0\<close> are both falsy.\<close>

definition or_default :: "int option \<Rightarrow> int \<Rightarrow> int" where
  "or_default v d = (case v of None \<Rightarrow> d | Some n \<Rightarrow> if n = 0 then d else n)"

text \<open>\<^verbatim>\<open>s.split(sep, 1)\<close>, \<^verbatim>\<open>s.rsplit(sep, 1)\<close> and list indexing by a natural number.\<close>

definition split1 :: "char \<Rightarrow> string \<Rightarrow> string list" where
  "split1 sep s =
     (if sep \<in> set s then [takeWhile (\<lambda>c. c \<noteq> sep) s, tl (dropWhile (\<lambda>c. c \<noteq> sep) s)]
      else [s])"

definition rsplit1 :: "char \<Rightarrow> string \<Rightarrow> string list" where
  "rsplit1 sep s =
     (if sep \<in> set s
      then [rev (tl (dropWhile (\<lambda>c. c \<noteq> sep) (rev s))), rev (takeWhile (\<lambda>c. c \<noteq> sep) (rev s))]
      else [s])"

definition index :: "'a list \<Rightarrow> nat \<Rightarrow> error + 'a" where
  "index xs i = (if i < length xs then Inr (xs ! i) else Inl IndexError)"

text \<open>
  \<^verbatim>\<open>os.remove\<close> deletes a regular file and \<^verbatim>\<open>shutil.rmtree\<close> a directory tree;
  each raises when the name is not there, is of the other kind, or may not be
  deleted.  \<^verbatim>\<open>os.remove\<close> is refused (PermissionError) before the kind of the
  entry is looked at; \<^verbatim>\<open>shutil.rmtree\<close> looks at the kind first.  A directory that
  is not removable is one that \<^verbatim>\<open>shutil.rmtree\<close> cannot enter: the call fails at
  once and the tree is as before.  (A tree that the call empties in part before it
  fails is outside the model.)
\<close>

definition os_remove :: "string \<Rightarrow> node \<Rightarrow> error + node" where
  "os_remove n d = (case d of
      Missing \<Rightarrow> Inl FileNotFoundError
    | Regular_file \<Rightarrow> Inl NotADirectoryError
    | Directory es \<Rightarrow>
        (case find (\<lambda>e. name e = n) es of
           None \<Rightarrow> Inl FileNotFoundError
         | Some e \<Rightarrow>
             if \<not> removable e then Inl PermissionError
             else if kind e = Dir then Inl IsADirectoryError
             else Inr (Directory (filter (\<lambda>e. name e \<noteq> n) es))))"

definition rmtree :: "string \<Rightarrow> node \<Rightarrow> error + node" where
  "rmtree n d = (case d of
      Missing \<Rightarrow> Inl FileNotFoundError
    | Regular_file \<Rightarrow> Inl NotADirectoryError
    | Directory es \<Rightarrow>
        (case find (\<lambda>e. name e = n) es of
           None \<Rightarrow> Inl FileNotFoundError
         | Some e \<Rightarrow>
             if kind e = File then Inl NotADirectoryError
             else if \<not> removable e then Inl PermissionError
             else Inr (Directory (filter (\<lambda>e. name e \<noteq> n) es))))"

subsection \<open>Configuration\<close>

text \<open>
  \<^verbatim>\<open>REPORTING_SETTINGS["max_reports_to_keep"]\<close> and
  \<^verbatim>\<open>SCREENSHOT_SETTINGS["max_screenshots_to_keep"]\<close>.
\<close>

definition max_reports_to_keep :: int where
  "max_reports_to_keep = 5"

definition max_screenshots_to_keep :: int where
  "max_screenshots_to_keep = 5"

subsection \<open>The operations\<close>

text \<open>
  The loop \<^verbatim>\<open>for old in targets: try: delete(old) ... except Exception: ...\<close> that
  all the operations share: one log line for each target, at level INFO when the
  deletion went through and at level ERROR when it raised, and the loop goes on in
  both cases.
\<close>

fun delete_each :: "(string \<Rightarrow> node \<Rightarrow> error + node) \<Rightarrow> root \<Rightarrow> entry list
    \<Rightarrow> node \<times> logline list \<Rightarrow> node \<times> logline list" where
  "delete_each del r [] st = st"
| "delete_each del r (t # ts) (d, lg) =
     (case del (name t) d of
        Inr d' \<Rightarrow> delete_each del r ts (d', lg @ [(INFO, Deleted r (name t))])
      | Inl err \<Rightarrow> delete_each del r ts (d, lg @ [(ERROR, Delete_failed r (name t) err)]))"

definition cleanup_reports :: "int option \<Rightarrow> world \<Rightarrow> outcome \<times> world" where
  "cleanup_reports max_reports w =
    (let keep = or_default max_reports max_reports_to_keep in
     if \<not> path_exists (reports_dir w) then (Returned, info (Dir_missing Reports) w)
     else
       let w1 = info (Keeping Reports keep) w;
           report_files = sort_reverse mtime (glob (reports_dir w1) ''*.html'')
       in if int (length report_files) > keep
          then
            let (d, lg) = delete_each os_remove Reports (slice_from keep report_files)
                            (reports_dir w1, logged w1)
            in (Returned, w1\<lparr>reports_dir := d, logged := lg\<rparr>)
          else (Returned, w1))"

definition cleanup_logs :: "int option \<Rightarrow> world \<Rightarrow> outcome \<times> world" where
  "cleanup_logs max_logs w =
    (let keep = or_default max_logs max_reports_to_keep in
     if \<not> path_exists (logs_dir w) then (Returned, info (Dir_missing Logs) w)
     else
       let w1 = info (Keeping Logs keep) w;
           log_files = sort_reverse mtime (glob (logs_dir w1) ''test_execution_*.log'')
       in if int (length log_files) > keep
          then
            let (d, lg) = delete_each os_remove Logs (slice_from keep log_files)
                            (logs_dir w1, logged w1)
            in (Returned, w1\<lparr>logs_dir := d, logged := lg\<rparr>)
          else (Returned, w1))"

text \<open>
  The timestamp token of a report.  \<^verbatim>\<open>strftime\<close> with the format
  \<^verbatim>\<open>%Y-%m-%d_%H-%M-%S\<close> in the local time zone is the parameter \<open>fmt\<close>.
\<close>

definition report_timestamp :: "(int \<Rightarrow> string) \<Rightarrow> entry \<Rightarrow> string" where
  "report_timestamp fmt report =
     (case index (split1 CHR ''_'' (name report)) 1 of
        Inl err \<Rightarrow> fmt (mtime report)
      | Inr rest \<Rightarrow>
          (case index (rsplit1 CHR ''.'' rest) 0 of
             Inl err \<Rightarrow> fmt (mtime report)
           | Inr timestamp \<Rightarrow> timestamp))"

fun match_found :: "string list \<Rightarrow> string \<Rightarrow> bool" where
  "match_found [] folder = False"
| "match_found (timestamp # ts) folder =
     (if sublist timestamp folder then True else match_found ts folder)"

fun delete_unmatched :: "string list \<Rightarrow> entry list \<Rightarrow> node \<times> logline list
    \<Rightarrow> node \<times> logline list" where
  "delete_unmatched tss [] st = st"
| "delete_unmatched tss (folder # fs) (d, lg) =
     (if match_found tss (name folder) then delete_unmatched tss fs (d, lg)
      else
        (case rmtree (name folder) d of
           Inr d' \<Rightarrow>
             delete_unmatched tss fs (d', lg @ [(INFO, Deleted Screenshots (name folder))])
         | Inl err \<Rightarrow>
             delete_unmatched tss fs
               (d, lg @ [(ERROR, Delete_failed Screenshots (name folder) err)])))"

definition cleanup_screenshots_match_reports ::
    "(int \<Rightarrow> string) \<Rightarrow> int option \<Rightarrow> world \<Rightarrow> outcome \<times> world" where
  "cleanup_screenshots_match_reports fmt reports_to_match w =
    (let num_reports = or_default reports_to_match max_reports_to_keep;
         w1 = info (Matching num_reports) w;
         report_files = sort_reverse mtime (glob (reports_dir w1) ''*.html'');
         report_timestamps = map (report_timestamp fmt) (slice_to num_reports report_files)
     in case listdir (screenshots_dir w1) of
          Inl err \<Rightarrow> (Raised err, w1)
        | Inr ds \<Rightarrow>
            let screenshot_folders = filter isdir ds;
                (d, lg) = delete_unmatched report_timestamps screenshot_folders
                            (screenshots_dir w1, logged w1)
            in (Returned, w1\<lparr>screenshots_dir := d, logged := lg\<rparr>))"

definition cleanup_screenshots_last_execution :: "int option \<Rightarrow> world \<Rightarrow> outcome \<times> world" where
  "cleanup_screenshots_last_execution max_screenshots w =
    (let max_to_keep = or_default max_screenshots max_screenshots_to_keep;
         w1 = info (Keeping Screenshots max_to_keep) w
     in case listdir (screenshots_dir w1) of
          Inl err \<Rightarrow> (Raised err, w1)
        | Inr ds \<Rightarrow>
            let screenshot_folders = sort_reverse ctime (filter isdir ds)
            in if int (length screenshot_folders) > max_to_keep
               then
                 let (d, lg) = delete_each rmtree Screenshots
                                 (slice_from max_to_keep screenshot_folders)
                                 (screenshots_dir w1, logged w1)
                 in (Returned, w1\<lparr>screenshots_dir := d, logged := lg\<rparr>)
               else (Returned, w1))"

definition cleanup_screenshots ::
    "(int \<Rightarrow> string) \<Rightarrow> string \<Rightarrow> int option \<Rightarrow> int option \<Rightarrow> world \<Rightarrow> outcome \<times> world" where
  "cleanup_screenshots fmt strategy max_screenshots reports_to_match w =
    (if \<not> path_exists (screenshots_dir w) then (Returned, info (Dir_missing Screenshots) w)
     else if strategy = ''match_reports''
       then cleanup_screenshots_match_reports fmt reports_to_match w
     else if strategy = ''last_execution''
       then cleanup_screenshots_last_execution max_screenshots w
     else (Returned, log_error (Unknown_strategy strategy) w))"

subsection \<open>Notions used in the statements\<close>

text \<open>
  When a deletion goes through: \<^verbatim>\<open>os.remove\<close> on a regular file that may be
  deleted, \<^verbatim>\<open>shutil.rmtree\<close> on a directory that may be deleted.  The log line a
  loop writes for an entry of the directory follows from that.
\<close>

definition can_remove :: "entry \<Rightarrow> bool" where
  "can_remove e = (kind e = File \<and> removable e)"

definition can_rmtree :: "entry \<Rightarrow> bool" where
  "can_rmtree e = (kind e = Dir \<and> removable e)"

definition remove_line :: "root \<Rightarrow> entry \<Rightarrow> logline" where
  "remove_line r t =
     (if can_remove t then (INFO, Deleted r (name t))
      else (ERROR, Delete_failed r (name t)
                     (if \<not> removable t then PermissionError else IsADirectoryError)))"

definition rmtree_line :: "root \<Rightarrow> entry \<Rightarrow> logline" where
  "rmtree_line r t =
     (if can_rmtree t then (INFO, Deleted r (name t))
      else (ERROR, Delete_failed r (name t)
                     (if kind t = File then NotADirectoryError else PermissionError)))"

text \<open>
  The lists the operations build before they delete: the entries matched by the
  pattern, newest first; the subdirectories, newest first; the tokens of the reports
  in the window; the subdirectories whose name contains no token.
\<close>

definition report_files :: "node \<Rightarrow> entry list" where
  "report_files d = sort_reverse mtime (glob d ''*.html'')"

definition log_files :: "node \<Rightarrow> entry list" where
  "log_files d = sort_reverse mtime (glob d ''test_execution_*.log'')"

definition newest_folders :: "entry list \<Rightarrow> entry list" where
  "newest_folders es = sort_reverse ctime (filter isdir es)"

definition report_timestamps :: "(int \<Rightarrow> string) \<Rightarrow> int \<Rightarrow> node \<Rightarrow> string list" where
  "report_timestamps fmt n d = map (report_timestamp fmt) (slice_to n (report_files d))"

definition unmatched :: "string list \<Rightarrow> entry list \<Rightarrow> entry list" where
  "unmatched tss es = filter (\<lambda>f. \<not> match_found tss (name f)) (filter isdir es)"

text \<open>
  The entries a loop \<^verbatim>\<open>if len(xs) > keep: for old in xs[keep:]\<close> visits.
\<close>

definition beyond :: "int \<Rightarrow> 'a list \<Rightarrow> 'a list" where
  "beyond keep xs = (if int (length xs) > keep then slice_from keep xs else [])"

text \<open>
  A directory is well formed when no two of its entries have the same name.  The
  file system is the three directories, without the log.  A count is not negative
  when it is absent or at least 0.
\<close>

definition names_distinct :: "node \<Rightarrow> bool" where
  "names_distinct d = (case d of Directory es \<Rightarrow> distinct (map name es) | _ \<Rightarrow> True)"

definition entries :: "node \<Rightarrow> entry list" where
  "entries d = (case d of Directory es \<Rightarrow> es | _ \<Rightarrow> [])"

definition filesystem :: "world \<Rightarrow> node \<times> node \<times> node" where
  "filesystem w = (reports_dir w, logs_dir w, screenshots_dir w)"

definition non_negative :: "int option \<Rightarrow> bool" where
  "non_negative v = (case v of None \<Rightarrow> True | Some n \<Rightarrow> 0 \<le> n)"

subsection \<open>Example states\<close>

text \<open>
  An instance of the parameter \<open>fmt\<close> for the examples: the format
  \<^verbatim>\<open>%Y-%m-%d_%H-%M-%S\<close> in the time zone UTC, of a time in seconds since 1970,
  for the years 0 to 9999.
\<close>

definition digit :: "int \<Rightarrow> char" where
  "digit n = ''0123456789'' ! nat (n mod 10)"

definition digits2 :: "int \<Rightarrow> string" where
  "digits2 n = [digit (n div 10), digit n]"

definition digits4 :: "int \<Rightarrow> string" where
  "digits4 n = [digit (n div 1000), digit (n div 100), digit (n div 10), digit n]"

definition civil_from_days :: "int \<Rightarrow> int \<times> int \<times> int" where
  "civil_from_days z =
     (let z1 = z + 719468;
          era = z1 div 146097;
          doe = z1 mod 146097;
          yoe = (doe - doe div 1460 + doe div 36524 - doe div 146096) div 365;
          doy = doe - (365 * yoe + yoe div 4 - yoe div 100);
          mp = (5 * doy + 2) div 153;
          d = doy - (153 * mp + 2) div 5 + 1;
          m = (if mp < 10 then mp + 3 else mp - 9);
          y = yoe + era * 400 + (if m \<le> 2 then 1 else 0)
      in (y, m, d))"

definition strftime_utc :: "int \<Rightarrow> string" where
  "strftime_utc t =
     (let (y, m, d) = civil_from_days (t div 86400);
          s = t mod 86400
      in digits4 y @ ''-'' @ digits2 m @ ''-'' @ digits2 d @ ''_'' @
         digits2 (s div 3600) @ ''-'' @ digits2 (s div 60 mod 60) @ ''-'' @ digits2 (s mod 60))"

definition a_file :: "string \<Rightarrow> int \<Rightarrow> entry" where
  "a_file n t = \<lparr>name = n, kind = File, mtime = t, ctime = t, removable = True\<rparr>"

definition a_folder :: "string \<Rightarrow> int \<Rightarrow> entry" where
  "a_folder n t = \<lparr>name = n, kind = Dir, mtime = t, ctime = t, removable = True\<rparr>"

definition locked :: "entry \<Rightarrow> entry" where
  "locked e = e\<lparr>removable := False\<rparr>"

definition example_reports :: "entry list" where
  "example_reports =
     [a_file ''report_2024-01-02_10-00-00.html'' 1704189600,
      a_file ''notes.txt'' 1704362400,
      a_file ''reportfinal.html'' 1704276000,
      a_file ''report_2024-01-01_10-00-00.html'' 1704103200]"

definition example_logs :: "entry list" where
  "example_logs =
     [a_file ''test_execution_2024-01-01_10-00-00.log'' 1704103200,
      a_file ''test_execution_2024-01-03_10-00-00.log'' 1704276000,
      a_file ''test_execution_2024-01-02_10-00-00.log'' 1704189600,
      a_file ''debug.log'' 1704362400]"

definition example_screenshots :: "entry list" where
  "example_screenshots =
     [a_folder ''2024-01-01_10-00-00'' 1704103200,
      a_folder ''2024-01-03_10-00-00'' 1704276000,
      a_file ''README'' 1704000000,
      a_folder ''2024-01-04_09-30-00'' 1704360600,
      a_folder ''2024-01-02_10-00-00'' 1704189600]"

definition example_world :: world where
  "example_world = \<lparr>reports_dir = Directory example_reports, logs_dir = Directory example_logs,
     screenshots_dir = Directory example_screenshots, logged = []\<rparr>"

definition locked_reports :: "entry list" where
  "locked_reports =
     [a_file ''report_2024-01-01_10-00-00.html'' 1704103200,
      locked (a_file ''report_2024-01-02_10-00-00.html'' 1704189600),
      a_file ''reportfinal.html'' 1704276000]"

definition locked_logs :: "entry list" where
  "locked_logs =
     [a_file ''test_execution_2024-01-01_10-00-00.log'' 1704103200,
      locked (a_file ''test_execution_2024-01-02_10-00-00.log'' 1704189600),
      a_file ''test_execution_2024-01-03_10-00-00.log'' 1704276000]"

definition locked_screenshots :: "entry list" where
  "locked_screenshots =
     [a_folder ''2024-01-01_10-00-00'' 1704103200,
      locked (a_folder ''2024-01-02_10-00-00'' 1704189600),
      a_folder ''2024-01-03_10-00-00'' 1704276000]"

definition locked_world :: world where
  "locked_world = \<lparr>reports_dir = Directory locked_reports, logs_dir = Directory locked_logs,
     screenshots_dir = Directory locked_screenshots, logged = []\<rparr>"

definition no_reports_world :: world where
  "no_reports_world = \<lparr>reports_dir = Missing, logs_dir = Missing,
     screenshots_dir = Directory example_screenshots, logged = []\<rparr>"

definition empty_world :: world where
  "empty_world = \<lparr>reports_dir = Missing, logs_dir = Missing, screenshots_dir = Missing,
     logged = []\<rparr>"

definition six_reports_world :: world where
  "six_reports_world = \<lparr>reports_dir = Directory
       [a_file ''report_1.html'' 1, a_file ''report_2.html'' 2, a_file ''report_3.html'' 3,
        a_file ''report_4.html'' 4, a_file ''report_5.html'' 5, a_file ''report_6.html'' 6],
     logs_dir = Missing, screenshots_dir = Missing, logged = []\<rparr>"

definition files_as_roots_world :: world where
  "files_as_roots_world = \<lparr>reports_dir = Regular_file, logs_dir = Regular_file,
     screenshots_dir = Regular_file, logged = []\<rparr>"

definition zero_window_world :: world where
  "zero_window_world = \<lparr>reports_dir = Directory
       [a_file ''report_2024-01-01_10-00-00.html'' 1704103200],
     logs_dir = Missing,
     screenshots_dir = Directory [a_folder ''2024-01-01_10-00-00'' 1704103200],
     logged = []\<rparr>"

definition prefixed_report_world :: world where
  "prefixed_report_world = \<lparr>reports_dir = Directory
       [a_file ''playwright_report_2024-01-01_10-00-00.html'' 1704103200],
     logs_dir = Missing,
     screenshots_dir = Directory [a_folder ''2024-01-01_10-00-00'' 1704103200],
     logged = []\<rparr>"

section \<open>Lemmas\<close>

subsection \<open>What the two patterns match\<close>

lemma fnmatch_star:
  "fnmatch n (CHR ''*'' # ps) \<longleftrightarrow> (\<exists>a b. n = a @ b \<and> fnmatch b ps)"
  by (auto simp: list_ex_iff suffix_def) blast

lemma fnmatch_char:
  "p \<noteq> CHR ''*'' \<Longrightarrow> fnmatch n (p # ps) \<longleftrightarrow> (\<exists>cs. n = p # cs \<and> fnmatch cs ps)"
  by (auto split: list.splits)

lemma fnmatch_literal_prefix:
  "CHR ''*'' \<notin> set p \<Longrightarrow> fnmatch n (p @ q) \<longleftrightarrow> (\<exists>m. n = p @ m \<and> fnmatch m q)"
proof (induction p arbitrary: n)
  case Nil
  then show ?case by simp
next
  case (Cons c p)
  then have "c \<noteq> CHR ''*''" by auto
  then have "fnmatch n ((c # p) @ q) \<longleftrightarrow> (\<exists>cs. n = c # cs \<and> fnmatch cs (p @ q))"
    by (simp add: fnmatch_char del: fnmatch.simps)
  also have "\<dots> \<longleftrightarrow> (\<exists>cs. n = c # cs \<and> (\<exists>m. cs = p @ m \<and> fnmatch m q))"
    using Cons by simp
  also have "\<dots> \<longleftrightarrow> (\<exists>m. n = (c # p) @ m \<and> fnmatch m q)"
    by auto
  finally show ?case .
qed

lemma fnmatch_literal: "CHR ''*'' \<notin> set p \<Longrightarrow> fnmatch n p \<longleftrightarrow> n = p"
  using fnmatch_literal_prefix [of p n "[]"] by simp

lemma fnmatch_html: "fnmatch n ''*.html'' \<longleftrightarrow> suffix ''.html'' n"
proof -
  have "fnmatch b ''.html'' \<longleftrightarrow> b = ''.html''" for b
    by (rule fnmatch_literal) simp
  then show ?thesis
    by (simp add: fnmatch_star suffix_def del: fnmatch.simps)
qed

lemma fnmatch_log:
  "fnmatch n ''test_execution_*.log'' \<longleftrightarrow> (\<exists>m. n = ''test_execution_'' @ m @ ''.log'')"
proof -
  have "fnmatch b ''.log'' \<longleftrightarrow> b = ''.log''" for b
    by (rule fnmatch_literal) simp
  then have "fnmatch m ''*.log'' \<longleftrightarrow> (\<exists>a. m = a @ ''.log'')" for m
    by (simp add: fnmatch_star del: fnmatch.simps)
  moreover have "fnmatch n (''test_execution_'' @ ''*.log'') \<longleftrightarrow>
      (\<exists>m. n = ''test_execution_'' @ m \<and> fnmatch m ''*.log'')"
    by (rule fnmatch_literal_prefix) simp
  ultimately show ?thesis
    by auto
qed

lemma glob_html:
  "e \<in> set (glob (Directory es) ''*.html'') \<longleftrightarrow>
     e \<in> set es \<and> suffix ''.html'' (name e) \<and> \<not> prefix ''.'' (name e)"
  by (auto simp: glob_def ishidden_def fnmatch_html prefix_def simp del: fnmatch.simps
      split: list.splits)

lemma glob_log:
  "e \<in> set (glob (Directory es) ''test_execution_*.log'') \<longleftrightarrow>
     e \<in> set es \<and> (\<exists>m. name e = ''test_execution_'' @ m @ ''.log'')"
  by (auto simp: glob_def ishidden_def fnmatch_log simp del: fnmatch.simps split: list.splits)

subsection \<open>The deletion loop\<close>

lemma find_name_in:
  assumes "distinct (map name es)" "t \<in> set es"
  shows "find (\<lambda>e. name e = name t) es = Some t"
  using assms by (induction es) (auto simp: image_iff)

lemma filter_name_eq:
  assumes "distinct (map name es)" "t \<in> set es"
  shows "filter (\<lambda>e. name e \<noteq> name t) es = filter (\<lambda>e. e \<noteq> t) es"
  using assms by (intro filter_cong) (auto simp: distinct_map dest: inj_onD)

lemma os_remove_Directory:
  assumes "distinct (map name es)" "t \<in> set es"
  shows "os_remove (name t) (Directory es) =
     (if can_remove t then Inr (Directory (filter (\<lambda>e. e \<noteq> t) es))
      else Inl (if \<not> removable t then PermissionError else IsADirectoryError))"
  using assms
  by (auto simp: os_remove_def can_remove_def find_name_in filter_name_eq intro: kind.exhaust)

lemma rmtree_Directory:
  assumes "distinct (map name es)" "t \<in> set es"
  shows "rmtree (name t) (Directory es) =
     (if can_rmtree t then Inr (Directory (filter (\<lambda>e. e \<noteq> t) es))
      else Inl (if kind t = File then NotADirectoryError else PermissionError))"
  using assms
  by (auto simp: rmtree_def can_rmtree_def find_name_in filter_name_eq intro: kind.exhaust)

lemma delete_each_os_remove:
  assumes "distinct (map name es)" "distinct ts" "set ts \<subseteq> set es"
  shows "delete_each os_remove r ts (Directory es, lg) =
           (Directory (filter (\<lambda>e. \<not> (e \<in> set ts \<and> can_remove e)) es),
            lg @ map (remove_line r) ts)"
  using assms
proof (induction ts arbitrary: es lg)
  case Nil
  then show ?case by simp
next
  case (Cons t ts)
  have t: "t \<in> set es" "t \<notin> set ts" using Cons.prems by auto
  note step = os_remove_Directory [OF Cons.prems(1) t(1)]
  show ?case
  proof (cases "can_remove t")
    case True
    let ?es' = "filter (\<lambda>e. e \<noteq> t) es"
    have "set ts \<subseteq> set ?es'" using Cons.prems t by auto
    then have "delete_each os_remove r ts (Directory ?es', lg @ [remove_line r t]) =
       (Directory (filter (\<lambda>e. \<not> (e \<in> set ts \<and> can_remove e)) ?es'),
        (lg @ [remove_line r t]) @ map (remove_line r) ts)"
      using Cons.prems by (intro Cons.IH) (auto simp: distinct_map_filter)
    moreover have "filter (\<lambda>e. \<not> (e \<in> set ts \<and> can_remove e)) ?es' =
        filter (\<lambda>e. \<not> (e \<in> set (t # ts) \<and> can_remove e)) es"
      using True by (auto intro: filter_cong)
    ultimately show ?thesis
      using True by (simp add: step remove_line_def)
  next
    case False
    have "delete_each os_remove r ts (Directory es, lg @ [remove_line r t]) =
       (Directory (filter (\<lambda>e. \<not> (e \<in> set ts \<and> can_remove e)) es),
        (lg @ [remove_line r t]) @ map (remove_line r) ts)"
      using Cons.prems by (intro Cons.IH) auto
    moreover have "filter (\<lambda>e. \<not> (e \<in> set ts \<and> can_remove e)) es =
        filter (\<lambda>e. \<not> (e \<in> set (t # ts) \<and> can_remove e)) es"
      using False by (intro filter_cong) auto
    ultimately show ?thesis
      using False by (simp add: step remove_line_def)
  qed
qed

lemma delete_each_rmtree:
  assumes "distinct (map name es)" "distinct ts" "set ts \<subseteq> set es"
  shows "delete_each rmtree r ts (Directory es, lg) =
           (Directory (filter (\<lambda>e. \<not> (e \<in> set ts \<and> can_rmtree e)) es),
            lg @ map (rmtree_line r) ts)"
  using assms
proof (induction ts arbitrary: es lg)
  case Nil
  then show ?case by simp
next
  case (Cons t ts)
  have t: "t \<in> set es" "t \<notin> set ts" using Cons.prems by auto
  note step = rmtree_Directory [OF Cons.prems(1) t(1)]
  show ?case
  proof (cases "can_rmtree t")
    case True
    let ?es' = "filter (\<lambda>e. e \<noteq> t) es"
    have "set ts \<subseteq> set ?es'" using Cons.prems t by auto
    then have "delete_each rmtree r ts (Directory ?es', lg @ [rmtree_line r t]) =
       (Directory (filter (\<lambda>e. \<not> (e \<in> set ts \<and> can_rmtree e)) ?es'),
        (lg @ [rmtree_line r t]) @ map (rmtree_line r) ts)"
      using Cons.prems by (intro Cons.IH) (auto simp: distinct_map_filter)
    moreover have "filter (\<lambda>e. \<not> (e \<in> set ts \<and> can_rmtree e)) ?es' =
        filter (\<lambda>e. \<not> (e \<in> set (t # ts) \<and> can_rmtree e)) es"
      using True by (auto intro: filter_cong)
    ultimately show ?thesis
      using True by (simp add: step rmtree_line_def)
  next
    case False
    have "delete_each rmtree r ts (Directory es, lg @ [rmtree_line r t]) =
       (Directory (filter (\<lambda>e. \<not> (e \<in> set ts \<and> can_rmtree e)) es),
        (lg @ [rmtree_line r t]) @ map (rmtree_line r) ts)"
      using Cons.prems by (intro Cons.IH) auto
    moreover have "filter (\<lambda>e. \<not> (e \<in> set ts \<and> can_rmtree e)) es =
        filter (\<lambda>e. \<not> (e \<in> set (t # ts) \<and> can_rmtree e)) es"
      using False by (intro filter_cong) auto
    ultimately show ?thesis
      using False by (simp add: step rmtree_line_def)
  qed
qed

lemma match_found_iff: "match_found tss folder \<longleftrightarrow> (\<exists>t\<in>set tss. sublist t folder)"
  by (induction tss) auto

lemma delete_unmatched_eq:
  "delete_unmatched tss fs st =
     delete_each rmtree Screenshots (filter (\<lambda>f. \<not> match_found tss (name f)) fs) st"
proof (induction fs arbitrary: st)
  case Nil
  then show ?case by simp
next
  case (Cons f fs)
  obtain d lg where st: "st = (d, lg)" by (cases st)
  show ?case
    unfolding st using Cons.IH by (simp split: sum.splits)
qed

lemma sort_reverse_filter: "sort_reverse k (filter P xs) = filter P (sort_reverse k xs)"
  by (simp add: sort_reverse_def filter_sort)

lemma sort_reverse_set [simp]: "set (sort_reverse k xs) = set xs"
  by (simp add: sort_reverse_def)

lemma sort_reverse_length [simp]: "length (sort_reverse k xs) = length xs"
  by (simp add: sort_reverse_def)

lemma sort_reverse_distinct [simp]: "distinct (sort_reverse k xs) = distinct xs"
  by (simp add: sort_reverse_def)

lemma sort_reverse_descending: "sorted (map (\<lambda>x. - k x) (sort_reverse k xs))"
  by (simp add: sort_reverse_def)

lemma sort_reverse_take_drop:
  assumes "a \<in> set (take n (sort_reverse k xs))" "b \<in> set (drop n (sort_reverse k xs))"
  shows "k b \<le> k a"
proof -
  let ?s = "sort_reverse k xs"
  have "sorted (map (\<lambda>x. - k x) (take n ?s) @ map (\<lambda>x. - k x) (drop n ?s))"
    using sort_reverse_descending [of k xs] by (simp flip: map_append)
  then show ?thesis using assms by (auto simp: sorted_append)
qed

lemma keep_newest:
  assumes "distinct xs"
  shows "filter (\<lambda>e. e \<notin> set (drop n xs)) xs = take n xs"
proof -
  have "set (take n xs) \<inter> set (drop n xs) = {}"
    using assms by (rule set_take_disj_set_drop_if_distinct) simp
  then have "filter (\<lambda>e. e \<notin> set (drop n xs)) (take n xs) = take n xs"
    by (intro filter_True) auto
  moreover have "filter (\<lambda>e. e \<notin> set (drop n xs)) (drop n xs) = []"
    by (intro filter_False) auto
  ultimately have "filter (\<lambda>e. e \<notin> set (drop n xs)) (take n xs @ drop n xs) = take n xs"
    by (simp only: filter_append append_Nil2)
  then show ?thesis by simp
qed

lemma distinct_entries: "distinct (map name es) \<Longrightarrow> distinct es"
  by (simp add: distinct_map)

lemma slice_from_set: "set (slice_from n xs) \<subseteq> set xs"
  by (auto simp: slice_from_def dest: in_set_dropD)

lemma slice_from_distinct: "distinct xs \<Longrightarrow> distinct (slice_from n xs)"
  by (simp add: slice_from_def)

lemma beyond_set: "set (beyond keep xs) \<subseteq> set xs"
  using slice_from_set [of keep xs] by (auto simp: beyond_def)

lemma beyond_distinct: "distinct xs \<Longrightarrow> distinct (beyond keep xs)"
  by (simp add: beyond_def slice_from_distinct)

lemma beyond_nonneg: "0 \<le> keep \<Longrightarrow> beyond keep xs = drop (nat keep) xs"
  by (simp add: beyond_def slice_from_def)

lemma glob_Directory_set: "set (glob (Directory es) pat) \<subseteq> set es"
  by (auto simp: glob_def)

lemma glob_Directory_distinct: "distinct es \<Longrightarrow> distinct (glob (Directory es) pat)"
  by (simp add: glob_def)

lemma glob_filter:
  "glob (Directory (filter P es)) pat = filter P (glob (Directory es) pat)"
  by (simp add: glob_def conj_commute)

lemma report_files_facts:
  assumes "distinct (map name es)"
  shows "distinct (beyond keep (report_files (Directory es)))"
    and "set (beyond keep (report_files (Directory es))) \<subseteq> set es"
  using assms beyond_set [of keep "report_files (Directory es)"] glob_Directory_set [of es]
  by (auto simp: report_files_def beyond_distinct glob_Directory_distinct distinct_entries)

lemma log_files_facts:
  assumes "distinct (map name es)"
  shows "distinct (beyond keep (log_files (Directory es)))"
    and "set (beyond keep (log_files (Directory es))) \<subseteq> set es"
  using assms beyond_set [of keep "log_files (Directory es)"] glob_Directory_set [of es]
  by (auto simp: log_files_def beyond_distinct glob_Directory_distinct distinct_entries)

lemma cleanup_reports_Missing:
  "reports_dir w = Missing \<Longrightarrow> cleanup_reports mr w = (Returned, info (Dir_missing Reports) w)"
  by (simp add: cleanup_reports_def path_exists_def)

lemma cleanup_reports_Regular_file:
  "reports_dir w = Regular_file \<Longrightarrow>
     cleanup_reports mr w =
       (Returned, info (Keeping Reports (or_default mr max_reports_to_keep)) w)"
  by (simp add: cleanup_reports_def path_exists_def Let_def info_def glob_def
      sort_reverse_def beyond_def slice_from_def)

lemma cleanup_reports_Directory:
  assumes "reports_dir w = Directory es" "distinct (map name es)"
  shows "cleanup_reports mr w =
    (Returned, w\<lparr>reports_dir := Directory (filter (\<lambda>e. \<not> (e \<in> set (beyond (or_default mr max_reports_to_keep) (report_files (Directory es))) \<and> can_remove e)) es),
       logged := logged w @ (INFO, Keeping Reports (or_default mr max_reports_to_keep)) #
                  map (remove_line Reports) (beyond (or_default mr max_reports_to_keep) (report_files (Directory es)))\<rparr>)"
proof -
  let ?K = "or_default mr max_reports_to_keep"
  let ?S = "report_files (Directory es)"
  have del: "delete_each os_remove Reports (beyond ?K ?S) (Directory es, lg) =
      (Directory (filter (\<lambda>e. \<not> (e \<in> set (beyond ?K ?S) \<and> can_remove e)) es),
       lg @ map (remove_line Reports) (beyond ?K ?S))" for lg
    using assms(2) by (intro delete_each_os_remove report_files_facts)
  show ?thesis
  proof (cases "?K < int (length ?S)")
    case True
    then have "beyond ?K ?S = slice_from ?K ?S"
      by (simp add: beyond_def)
    then show ?thesis
      using True assms(1) del
      by (simp add: cleanup_reports_def path_exists_def Let_def info_def flip: report_files_def)
  next
    case False
    then have "beyond ?K ?S = []"
      by (simp add: beyond_def)
    moreover have "w\<lparr>reports_dir := Directory es\<rparr> = w"
      using assms(1) by (cases w) simp
    ultimately show ?thesis
      using False assms(1)
      by (simp add: cleanup_reports_def path_exists_def Let_def info_def flip: report_files_def)
  qed
qed

lemma cleanup_logs_Missing:
  "logs_dir w = Missing \<Longrightarrow> cleanup_logs ml w = (Returned, info (Dir_missing Logs) w)"
  by (simp add: cleanup_logs_def path_exists_def)

lemma cleanup_logs_Regular_file:
  "logs_dir w = Regular_file \<Longrightarrow>
     cleanup_logs ml w = (Returned, info (Keeping Logs (or_default ml max_reports_to_keep)) w)"
  by (simp add: cleanup_logs_def path_exists_def Let_def info_def glob_def
      sort_reverse_def beyond_def slice_from_def)

lemma cleanup_logs_Directory:
  assumes "logs_dir w = Directory es" "distinct (map name es)"
  shows "cleanup_logs ml w =
    (Returned, w\<lparr>logs_dir := Directory (filter (\<lambda>e. \<not> (e \<in> set (beyond (or_default ml max_reports_to_keep) (log_files (Directory es))) \<and> can_remove e)) es),
       logged := logged w @ (INFO, Keeping Logs (or_default ml max_reports_to_keep)) #
                  map (remove_line Logs) (beyond (or_default ml max_reports_to_keep) (log_files (Directory es)))\<rparr>)"
proof -
  let ?K = "or_default ml max_reports_to_keep"
  let ?S = "log_files (Directory es)"
  have del: "delete_each os_remove Logs (beyond ?K ?S) (Directory es, lg) =
      (Directory (filter (\<lambda>e. \<not> (e \<in> set (beyond ?K ?S) \<and> can_remove e)) es),
       lg @ map (remove_line Logs) (beyond ?K ?S))" for lg
    using assms(2) by (intro delete_each_os_remove log_files_facts)
  show ?thesis
  proof (cases "?K < int (length ?S)")
    case True
    then have "beyond ?K ?S = slice_from ?K ?S"
      by (simp add: beyond_def)
    then show ?thesis
      using True assms(1) del
      by (simp add: cleanup_logs_def path_exists_def Let_def info_def flip: log_files_def)
  next
    case False
    then have "beyond ?K ?S = []"
      by (simp add: beyond_def)
    moreover have "w\<lparr>logs_dir := Directory es\<rparr> = w"
      using assms(1) by (cases w) simp
    ultimately show ?thesis
      using False assms(1)
      by (simp add: cleanup_logs_def path_exists_def Let_def info_def flip: log_files_def)
  qed
qed

lemma unmatched_facts:
  assumes "distinct (map name es)"
  shows "distinct (unmatched tss es)" and "set (unmatched tss es) \<subseteq> set es"
  using assms by (auto simp: unmatched_def distinct_entries)

lemma newest_folders_facts:
  assumes "distinct (map name es)"
  shows "distinct (beyond keep (newest_folders es))"
    and "set (beyond keep (newest_folders es)) \<subseteq> set es"
  using assms beyond_set [of keep "newest_folders es"]
  by (auto simp: newest_folders_def beyond_distinct distinct_entries)

lemma cleanup_screenshots_match_reports_Directory:
  assumes "screenshots_dir w = Directory es" "distinct (map name es)"
  shows "cleanup_screenshots_match_reports fmt rtm w =
    (Returned, w\<lparr>screenshots_dir := Directory (filter (\<lambda>e. \<not> (e \<in> set (unmatched (report_timestamps fmt (or_default rtm max_reports_to_keep) (reports_dir w)) es) \<and> can_rmtree e)) es),
       logged := logged w @ (INFO, Matching (or_default rtm max_reports_to_keep)) #
                  map (rmtree_line Screenshots) (unmatched (report_timestamps fmt (or_default rtm max_reports_to_keep) (reports_dir w)) es)\<rparr>)"
proof -
  have "delete_each rmtree Screenshots (unmatched tss es) (Directory es, lg) =
          (Directory (filter (\<lambda>e. \<not> (e \<in> set (unmatched tss es) \<and> can_rmtree e)) es),
           lg @ map (rmtree_line Screenshots) (unmatched tss es))" for tss lg
    using assms(2) by (intro delete_each_rmtree unmatched_facts)
  then show ?thesis
    using assms(1)
    by (simp add: cleanup_screenshots_match_reports_def Let_def info_def listdir_def
        delete_unmatched_eq report_timestamps_def report_files_def unmatched_def)
qed

lemma cleanup_screenshots_match_reports_not_Directory:
  assumes "screenshots_dir w = d" "d = Missing \<or> d = Regular_file"
  shows "cleanup_screenshots_match_reports fmt rtm w =
    (Raised (if d = Missing then FileNotFoundError else NotADirectoryError),
     info (Matching (or_default rtm max_reports_to_keep)) w)"
  using assms
  by (auto simp: cleanup_screenshots_match_reports_def Let_def info_def listdir_def)

lemma cleanup_screenshots_last_execution_Directory:
  assumes "screenshots_dir w = Directory es" "distinct (map name es)"
  shows "cleanup_screenshots_last_execution ms w =
    (Returned, w\<lparr>screenshots_dir := Directory (filter (\<lambda>e. \<not> (e \<in> set (beyond (or_default ms max_screenshots_to_keep) (newest_folders es)) \<and> can_rmtree e)) es),
       logged := logged w @ (INFO, Keeping Screenshots (or_default ms max_screenshots_to_keep)) #
                  map (rmtree_line Screenshots) (beyond (or_default ms max_screenshots_to_keep) (newest_folders es))\<rparr>)"
proof -
  let ?K = "or_default ms max_screenshots_to_keep"
  have del: "delete_each rmtree Screenshots (beyond ?K (newest_folders es)) (Directory es, lg) =
          (Directory (filter (\<lambda>e. \<not> (e \<in> set (beyond ?K (newest_folders es)) \<and> can_rmtree e)) es),
           lg @ map (rmtree_line Screenshots) (beyond ?K (newest_folders es)))" for lg
    using assms(2) by (intro delete_each_rmtree newest_folders_facts)
  show ?thesis
  proof (cases "?K < int (length (newest_folders es))")
    case True
    then have "beyond ?K (newest_folders es) = slice_from ?K (newest_folders es)"
      by (simp add: beyond_def)
    then show ?thesis
      using True assms(1) del
      by (simp add: cleanup_screenshots_last_execution_def Let_def info_def listdir_def
          flip: newest_folders_def)
  next
    case False
    then have "beyond ?K (newest_folders es) = []"
      by (simp add: beyond_def)
    moreover have "w\<lparr>screenshots_dir := Directory es\<rparr> = w"
      using assms(1) by (cases w) simp
    ultimately show ?thesis
      using False assms(1)
      by (simp add: cleanup_screenshots_last_execution_def Let_def info_def listdir_def
          flip: newest_folders_def)
  qed
qed

lemma cleanup_screenshots_last_execution_not_Directory:
  assumes "screenshots_dir w = d" "d = Missing \<or> d = Regular_file"
  shows "cleanup_screenshots_last_execution ms w =
    (Raised (if d = Missing then FileNotFoundError else NotADirectoryError),
     info (Keeping Screenshots (or_default ms max_screenshots_to_keep)) w)"
  using assms
  by (auto simp: cleanup_screenshots_last_execution_def Let_def info_def listdir_def)

lemma or_default_pos: "0 < k \<Longrightarrow> or_default (Some k) d = k"
  by (simp add: or_default_def)

lemma glob_length_sorted: "length (report_files d) = length (glob d ''*.html'')"
  by (simp add: report_files_def)

lemma report_files_filter:
  "report_files (Directory (filter P es)) = filter P (report_files (Directory es))"
  by (simp add: report_files_def glob_filter sort_reverse_filter)

lemma report_files_distinct: "distinct (map name es) \<Longrightarrow> distinct (report_files (Directory es))"
  by (simp add: report_files_def glob_Directory_distinct distinct_entries)

lemma filter_all_removable:
  assumes "\<forall>e\<in>set ts. P e"
  shows "filter (\<lambda>e. \<not> (e \<in> set ts \<and> P e)) es = filter (\<lambda>e. e \<notin> set ts) es"
  using assms by (intro filter_cong) auto

lemma or_default_non_negative: "non_negative v \<Longrightarrow> 0 \<le> d \<Longrightarrow> 0 \<le> or_default v d"
  by (auto simp: non_negative_def or_default_def split: option.splits)

lemma log_files_filter:
  "log_files (Directory (filter P es)) = filter P (log_files (Directory es))"
  by (simp add: log_files_def glob_filter sort_reverse_filter)

lemma log_files_distinct: "distinct (map name es) \<Longrightarrow> distinct (log_files (Directory es))"
  by (simp add: log_files_def glob_Directory_distinct distinct_entries)

lemma rerun_tail:
  assumes "distinct S"
  shows "drop n (filter (\<lambda>e. \<not> (e \<in> set (drop n S) \<and> P e)) S) =
           filter (\<lambda>e. \<not> P e) (drop n S)"
proof -
  let ?Q = "\<lambda>e. \<not> (e \<in> set (drop n S) \<and> P e)"
  have "set (take n S) \<inter> set (drop n S) = {}"
    using assms by (rule set_take_disj_set_drop_if_distinct) simp
  then have head: "filter ?Q (take n S) = take n S"
    by (intro filter_True) auto
  have tail: "filter ?Q (drop n S) = filter (\<lambda>e. \<not> P e) (drop n S)"
    by (intro filter_cong) auto
  have "filter ?Q (take n S @ drop n S) = take n S @ filter (\<lambda>e. \<not> P e) (drop n S)"
    by (simp only: filter_append head tail)
  then have split: "filter ?Q S = take n S @ filter (\<lambda>e. \<not> P e) (drop n S)"
    by simp
  show ?thesis
  proof (cases "n \<le> length S")
    case True
    then have "length (take n S) = n" by simp
    then have "drop n (take n S @ filter (\<lambda>e. \<not> P e) (drop n S)) =
        filter (\<lambda>e. \<not> P e) (drop n S)"
      by (metis append_eq_conv_conj append_take_drop_id drop_append diff_self_eq_0 drop_0
          drop_all order_refl append_Nil)
    then show ?thesis by (simp only: split)
  next
    case False
    then show ?thesis by simp
  qed
qed

lemma rerun_survivors:
  assumes "distinct S"
    and "\<And>P. S' P = filter P S"
  shows "filter (\<lambda>e. \<not> (e \<in> set (drop n (S' (\<lambda>e. \<not> (e \<in> set (drop n S) \<and> can e)))) \<and> can e)) es1 = es1"
proof -
  have "drop n (S' (\<lambda>e. \<not> (e \<in> set (drop n S) \<and> can e))) = filter (\<lambda>e. \<not> can e) (drop n S)"
    using rerun_tail [OF assms(1)] by (simp add: assms(2))
  then show ?thesis
    by (intro filter_True) auto
qed

lemma reports_rerun:
  assumes "distinct (map name es)" and "0 \<le> K"
  shows "filter (\<lambda>e. \<not> (e \<in> set (beyond K (report_files (Directory
              (filter (\<lambda>e. \<not> (e \<in> set (beyond K (report_files (Directory es))) \<and> can_remove e)) es))))
            \<and> can_remove e))
          (filter (\<lambda>e. \<not> (e \<in> set (beyond K (report_files (Directory es))) \<and> can_remove e)) es) =
         filter (\<lambda>e. \<not> (e \<in> set (beyond K (report_files (Directory es))) \<and> can_remove e)) es"
  using rerun_survivors [OF report_files_distinct [OF assms(1)],
      of "\<lambda>P. report_files (Directory (filter P es))" "nat K" can_remove] assms(2)
  by (simp add: beyond_nonneg report_files_filter)

lemma logs_rerun:
  assumes "distinct (map name es)" and "0 \<le> K"
  shows "filter (\<lambda>e. \<not> (e \<in> set (beyond K (log_files (Directory
              (filter (\<lambda>e. \<not> (e \<in> set (beyond K (log_files (Directory es))) \<and> can_remove e)) es))))
            \<and> can_remove e))
          (filter (\<lambda>e. \<not> (e \<in> set (beyond K (log_files (Directory es))) \<and> can_remove e)) es) =
         filter (\<lambda>e. \<not> (e \<in> set (beyond K (log_files (Directory es))) \<and> can_remove e)) es"
  using rerun_survivors [OF log_files_distinct [OF assms(1)],
      of "\<lambda>P. log_files (Directory (filter P es))" "nat K" can_remove] assms(2)
  by (simp add: beyond_nonneg log_files_filter)

lemma filesystem_logged [simp]: "filesystem (w\<lparr>logged := lg\<rparr>) = filesystem w"
  by (simp add: filesystem_def)

lemma filesystem_info [simp]: "filesystem (info m w) = filesystem w"
  by (simp add: info_def)

lemma cleanup_reports_twice:
  assumes "names_distinct (reports_dir w)" and "non_negative v"
  shows "filesystem (snd (cleanup_reports v (snd (cleanup_reports v w)))) =
         filesystem (snd (cleanup_reports v w))"
proof (cases "reports_dir w")
  case Missing
  then show ?thesis
    by (simp add: cleanup_reports_Missing info_def)
next
  case Regular_file
  then show ?thesis
    by (simp add: cleanup_reports_Regular_file info_def)
next
  case (Directory es)
  let ?K = "or_default v max_reports_to_keep"
  let ?es1 = "filter (\<lambda>e. \<not> (e \<in> set (beyond ?K (report_files (Directory es))) \<and> can_remove e)) es"
  have names: "distinct (map name es)"
    using assms(1) Directory by (simp add: names_distinct_def)
  have K: "0 \<le> ?K"
    using assms(2) by (simp add: or_default_non_negative max_reports_to_keep_def)
  obtain w1 where w1: "cleanup_reports v w = (Returned, w1)" "reports_dir w1 = Directory ?es1"
    using cleanup_reports_Directory [OF Directory names, of v] by simp
  have names1: "distinct (map name ?es1)"
    using names by (simp add: distinct_map_filter)
  show ?thesis
    using cleanup_reports_Directory [OF w1(2) names1, of v] reports_rerun [OF names K]
    by (simp add: w1 filesystem_def)
qed

lemma cleanup_logs_twice:
  assumes "names_distinct (logs_dir w)" and "non_negative v"
  shows "filesystem (snd (cleanup_logs v (snd (cleanup_logs v w)))) =
         filesystem (snd (cleanup_logs v w))"
proof (cases "logs_dir w")
  case Missing
  then show ?thesis
    by (simp add: cleanup_logs_Missing info_def)
next
  case Regular_file
  then show ?thesis
    by (simp add: cleanup_logs_Regular_file info_def)
next
  case (Directory es)
  let ?K = "or_default v max_reports_to_keep"
  let ?es1 = "filter (\<lambda>e. \<not> (e \<in> set (beyond ?K (log_files (Directory es))) \<and> can_remove e)) es"
  have names: "distinct (map name es)"
    using assms(1) Directory by (simp add: names_distinct_def)
  have K: "0 \<le> ?K"
    using assms(2) by (simp add: or_default_non_negative max_reports_to_keep_def)
  obtain w1 where w1: "cleanup_logs v w = (Returned, w1)" "logs_dir w1 = Directory ?es1"
    using cleanup_logs_Directory [OF Directory names, of v] by simp
  have names1: "distinct (map name ?es1)"
    using names by (simp add: distinct_map_filter)
  show ?thesis
    using cleanup_logs_Directory [OF w1(2) names1, of v] logs_rerun [OF names K]
    by (simp add: w1 filesystem_def)
qed

lemma newest_folders_filter:
  "newest_folders (filter P es) = filter P (newest_folders es)"
  by (simp add: newest_folders_def sort_reverse_filter conj_commute)

lemma newest_folders_distinct: "distinct (map name es) \<Longrightarrow> distinct (newest_folders es)"
  by (simp add: newest_folders_def distinct_entries)

lemma cleanup_screenshots_last_execution_eq:
  "screenshots_dir w = Directory es \<Longrightarrow>
     cleanup_screenshots fmt ''last_execution'' ms rtm w = cleanup_screenshots_last_execution ms w"
  by (simp add: cleanup_screenshots_def path_exists_def)

lemma cleanup_screenshots_match_reports_eq:
  "screenshots_dir w = Directory es \<Longrightarrow>
     cleanup_screenshots fmt ''match_reports'' ms rtm w =
       cleanup_screenshots_match_reports fmt rtm w"
  by (simp add: cleanup_screenshots_def path_exists_def)

lemma report_timestamp_fallback:
  "CHR ''_'' \<notin> set (name r) \<Longrightarrow> report_timestamp fmt r = fmt (mtime r)"
  by (simp add: report_timestamp_def split1_def index_def)

lemma takeWhile_until:
  "c \<notin> set p \<Longrightarrow> takeWhile (\<lambda>a. a \<noteq> c) (p @ c # s) = p"
  by (induction p) auto

lemma dropWhile_until:
  "c \<notin> set p \<Longrightarrow> dropWhile (\<lambda>a. a \<noteq> c) (p @ c # s) = c # s"
  by (induction p) auto

lemma report_timestamp_parsed:
  assumes "name r = p @ CHR ''_'' # t @ CHR ''.'' # x"
    and "CHR ''_'' \<notin> set p" and "CHR ''.'' \<notin> set x"
  shows "report_timestamp fmt r = t"
proof -
  have "split1 CHR ''_'' (name r) = [p, t @ CHR ''.'' # x]"
    using assms(1,2) by (simp add: split1_def takeWhile_until dropWhile_until)
  moreover have "rsplit1 CHR ''.'' (t @ CHR ''.'' # x) = [t, x]"
    using assms(3) by (simp add: rsplit1_def takeWhile_until dropWhile_until)
  ultimately show ?thesis
    by (simp add: report_timestamp_def index_def)
qed

lemma match_found_timestamps:
  "match_found (report_timestamps fmt N d) folder \<longleftrightarrow>
     (\<exists>r\<in>set (slice_to N (report_files d)). sublist (report_timestamp fmt r) folder)"
  by (simp add: match_found_iff report_timestamps_def)

lemma in_unmatched:
  "f \<in> set (unmatched tss es) \<longleftrightarrow> f \<in> set es \<and> isdir f \<and> \<not> match_found tss (name f)"
  by (auto simp: unmatched_def)

lemma glob_no_reports: "d = Missing \<or> glob d pat = [] \<Longrightarrow> glob d pat = []"
  by (auto simp: glob_def)

lemma or_default_zero: "or_default (Some 0) d = or_default None d"
  by (simp add: or_default_def)

section \<open>The claims\<close>

text \<open>
  In the statements below a directory is well formed when no two of its entries have
  the same name, and "no deletion fails" says that every entry the loop visits can be
  deleted by the call the loop makes (\<open>can_remove\<close> for \<^verbatim>\<open>os.remove\<close>,
  \<open>can_rmtree\<close> for \<^verbatim>\<open>shutil.rmtree\<close>).
\<close>

subsection \<open>C1: bounded retention of reports\<close>

text \<open>
  C1.  For a reports directory and a positive \<open>keep_count = k\<close>, if no deletion
  fails, the clean-reports operation returns and leaves, of the \<open>M\<close> entries that
  \<^verbatim>\<open>*.html\<close> matches, exactly \<open>min M k\<close>: the first \<open>k\<close> of the listing sorted by
  modification time, newest first.  The entries beyond index \<open>k - 1\<close> are gone and
  nothing else in the directory is touched; every entry that stays is at least as
  new as every entry that went; entries with the same modification time are in the
  order of the directory listing (the sort is stable).  The html files of the
  statement are the entries that the listing \<^verbatim>\<open>glob.glob\<close> returns, which goes by
  name; in a flat reports directory they are its regular html files.
\<close>

theorem cleanup_reports_keeps_newest:
  assumes dir: "reports_dir w = Directory es"
    and names: "distinct (map name es)"
    and k: "0 < k"
    and no_failure: "\<forall>e\<in>set (drop (nat k) (report_files (Directory es))). can_remove e"
  shows "fst (cleanup_reports (Some k) w) = Returned
    \<and> reports_dir (snd (cleanup_reports (Some k) w)) =
        Directory (filter (\<lambda>e. e \<notin> set (drop (nat k) (report_files (Directory es)))) es)
    \<and> report_files (reports_dir (snd (cleanup_reports (Some k) w))) =
        take (nat k) (report_files (Directory es))
    \<and> length (glob (reports_dir (snd (cleanup_reports (Some k) w))) ''*.html'') =
        min (length (glob (Directory es) ''*.html'')) (nat k)
    \<and> (\<forall>a\<in>set (take (nat k) (report_files (Directory es))).
        \<forall>b\<in>set (drop (nat k) (report_files (Directory es))). mtime b \<le> mtime a)
    \<and> (\<forall>t. filter (\<lambda>e. mtime e = t) (report_files (Directory es)) =
            filter (\<lambda>e. mtime e = t) (glob (Directory es) ''*.html''))"
proof -
  let ?S = "report_files (Directory es)"
  let ?w' = "snd (cleanup_reports (Some k) w)"
  have keep: "or_default (Some k) max_reports_to_keep = k"
    using k by (simp add: or_default_pos)
  have tail: "beyond k ?S = drop (nat k) ?S"
    using k by (simp add: beyond_nonneg)
  have run: "cleanup_reports (Some k) w =
      (Returned, w\<lparr>reports_dir := Directory (filter (\<lambda>e. e \<notin> set (drop (nat k) ?S)) es),
         logged := logged w @ (INFO, Keeping Reports k) #
                     map (remove_line Reports) (drop (nat k) ?S)\<rparr>)"
    using cleanup_reports_Directory [OF dir names, of "Some k"] no_failure
    by (simp add: keep tail filter_all_removable)
  have after: "report_files (reports_dir ?w') = take (nat k) ?S"
    using report_files_distinct [OF names]
    by (simp add: run report_files_filter keep_newest)
  have "length (report_files (reports_dir ?w')) = min (length ?S) (nat k)"
    by (simp add: after)
  then have count: "length (glob (reports_dir ?w') ''*.html'') =
      min (length (glob (Directory es) ''*.html'')) (nat k)"
    by (simp add: glob_length_sorted)
  have order: "\<forall>a\<in>set (take (nat k) ?S). \<forall>b\<in>set (drop (nat k) ?S). mtime b \<le> mtime a"
    unfolding report_files_def by (blast intro: sort_reverse_take_drop)
  have stable: "\<forall>t. filter (\<lambda>e. mtime e = t) ?S =
      filter (\<lambda>e. mtime e = t) (glob (Directory es) ''*.html'')"
  proof
    fix t
    show "filter (\<lambda>e. mtime e = t) ?S =
        filter (\<lambda>e. mtime e = t) (glob (Directory es) ''*.html'')"
      using sort_key_stable [of "\<lambda>e. - mtime e" "- t" "glob (Directory es) ''*.html''"]
      by (simp add: report_files_def sort_reverse_def)
  qed
  show ?thesis
    using after count order stable by (simp add: run)
qed

text \<open>
  In \<open>example_world\<close> the reports directory holds three reports and a text file;
  with \<open>keep_count = 2\<close> the two newest reports stay.
\<close>

theorem cleanup_reports_keeps_newest_witness:
  "map name (report_files (reports_dir (snd (cleanup_reports (Some 2) example_world)))) =
     [''reportfinal.html'', ''report_2024-01-02_10-00-00.html'']"
proof -
  have dir: "reports_dir example_world = Directory example_reports"
    by (simp add: example_world_def)
  have names: "distinct (map name example_reports)"
    by code_simp
  have k: "(0::int) < 2"
    by simp
  have S: "map name (report_files (Directory example_reports)) =
     [''reportfinal.html'', ''report_2024-01-02_10-00-00.html'', ''report_2024-01-01_10-00-00.html'']"
    by code_simp
  have no_failure:
    "\<forall>e\<in>set (drop (nat 2) (report_files (Directory example_reports))). can_remove e"
    by code_simp
  have "report_files (reports_dir (snd (cleanup_reports (Some 2) example_world))) =
      take (nat 2) (report_files (Directory example_reports))"
    using cleanup_reports_keeps_newest [OF dir names k no_failure] by blast
  then show ?thesis
    using S by (simp add: take_map [symmetric])
qed

subsection \<open>C2: the match-reports strategy\<close>

text \<open>
  For a positive window \<open>N\<close> the code does what is claimed.  If no deletion fails,
  the operation returns and an immediate subdirectory of the screenshots root is
  still there afterwards if and only if its name contains, as a substring, the
  timestamp token of one of the \<open>N\<close> most recently modified report files.  Nothing
  about the folder's own times enters: a folder newer than every matched report goes
  like any other that matches no token.  Entries of the screenshots root that are not
  directories stay, and nothing is added.  The token of a report named \<open>p_t.x\<close> (no
  \<^verbatim>\<open>_\<close> in \<open>p\<close>, no dot in \<open>x\<close>) is \<open>t\<close>; the token of a report with no \<^verbatim>\<open>_\<close> in
  its name is its modification time, formatted.
\<close>

lemma match_reports_retains_matching_folders:
  assumes dir: "screenshots_dir w = Directory es"
    and names: "distinct (map name es)"
    and N: "0 < N"
    and no_failure:
      "\<forall>e\<in>set (unmatched (report_timestamps fmt N (reports_dir w)) es). can_rmtree e"
  shows "fst (cleanup_screenshots fmt ''match_reports'' ms (Some N) w) = Returned
    \<and> (\<forall>f\<in>set es. isdir f \<longrightarrow>
         (f \<in> set (entries (screenshots_dir
                 (snd (cleanup_screenshots fmt ''match_reports'' ms (Some N) w))))
          \<longleftrightarrow> (\<exists>r\<in>set (take (nat N) (report_files (reports_dir w))).
                 sublist (report_timestamp fmt r) (name f))))
    \<and> (\<forall>f\<in>set es. \<not> isdir f \<longrightarrow>
         f \<in> set (entries (screenshots_dir
                 (snd (cleanup_screenshots fmt ''match_reports'' ms (Some N) w)))))
    \<and> set (entries (screenshots_dir
                 (snd (cleanup_screenshots fmt ''match_reports'' ms (Some N) w)))) \<subseteq> set es
    \<and> (\<forall>r p t x. name r = p @ CHR ''_'' # t @ CHR ''.'' # x \<and> CHR ''_'' \<notin> set p
           \<and> CHR ''.'' \<notin> set x \<longrightarrow> report_timestamp fmt r = t)
    \<and> (\<forall>r. CHR ''_'' \<notin> set (name r) \<longrightarrow> report_timestamp fmt r = fmt (mtime r))"
proof -
  let ?tss = "report_timestamps fmt N (reports_dir w)"
  let ?w' = "snd (cleanup_screenshots fmt ''match_reports'' ms (Some N) w)"
  have keep: "or_default (Some N) max_reports_to_keep = N"
    using N by (simp add: or_default_pos)
  have run: "cleanup_screenshots fmt ''match_reports'' ms (Some N) w =
      (Returned, w\<lparr>screenshots_dir := Directory (filter (\<lambda>e. e \<notin> set (unmatched ?tss es)) es),
         logged := logged w @ (INFO, Matching N) #
                     map (rmtree_line Screenshots) (unmatched ?tss es)\<rparr>)"
    using cleanup_screenshots_match_reports_Directory [OF dir names, of fmt "Some N"] no_failure
    by (simp add: cleanup_screenshots_match_reports_eq [OF dir] keep filter_all_removable)
  have after: "entries (screenshots_dir ?w') = filter (\<lambda>e. e \<notin> set (unmatched ?tss es)) es"
    by (simp add: run entries_def)
  have window: "slice_to N xs = take (nat N) xs" for xs :: "entry list"
    using N by (simp add: slice_to_def)
  have folders: "\<forall>f\<in>set es. isdir f \<longrightarrow>
      (f \<in> set (entries (screenshots_dir ?w'))
       \<longleftrightarrow> (\<exists>r\<in>set (take (nat N) (report_files (reports_dir w))).
              sublist (report_timestamp fmt r) (name f)))"
    by (simp add: after in_unmatched match_found_timestamps window)
  have others: "\<forall>f\<in>set es. \<not> isdir f \<longrightarrow> f \<in> set (entries (screenshots_dir ?w'))"
    by (simp add: after in_unmatched)
  have sub: "set (entries (screenshots_dir ?w')) \<subseteq> set es"
    by (auto simp: after)
  have parsed: "\<forall>r p t x. name r = p @ CHR ''_'' # t @ CHR ''.'' # x \<and> CHR ''_'' \<notin> set p
           \<and> CHR ''.'' \<notin> set x \<longrightarrow> report_timestamp fmt r = t"
    by (blast intro: report_timestamp_parsed)
  have fallback: "\<forall>r. CHR ''_'' \<notin> set (name r) \<longrightarrow> report_timestamp fmt r = fmt (mtime r)"
    by (blast intro: report_timestamp_fallback)
  have "fst (cleanup_screenshots fmt ''match_reports'' ms (Some N) w) = Returned"
    by (simp add: run)
  then show ?thesis
    using folders others sub parsed fallback by blast
qed

text \<open>
  In \<open>example_world\<close> the two newest reports are \<^verbatim>\<open>reportfinal.html\<close> (modified on
  3 January at 10:00:00) and the report of 2 January.  The folders of those two runs
  stay; the folder of 1 January goes, and so does the folder of 4 January, which is
  newer than both reports.
\<close>

lemma match_reports_retains_matching_folders_example:
  "map name (entries (screenshots_dir
      (snd (cleanup_screenshots strftime_utc ''match_reports'' None (Some 2) example_world)))) =
     [''2024-01-03_10-00-00'', ''README'', ''2024-01-02_10-00-00'']
   \<and> a_folder ''2024-01-04_09-30-00'' 1704360600 \<notin> set (entries (screenshots_dir
      (snd (cleanup_screenshots strftime_utc ''match_reports'' None (Some 2) example_world))))"
proof -
  let ?after = "entries (screenshots_dir
      (snd (cleanup_screenshots strftime_utc ''match_reports'' None (Some 2) example_world)))"
  have dir: "screenshots_dir example_world = Directory example_screenshots"
    by (simp add: example_world_def)
  have names: "distinct (map name example_screenshots)"
    by code_simp
  have N: "(0::int) < 2"
    by simp
  have no_failure: "\<forall>e\<in>set (unmatched (report_timestamps strftime_utc 2
      (reports_dir example_world)) example_screenshots). can_rmtree e"
    by code_simp
  note claim = match_reports_retains_matching_folders [OF dir names N no_failure, of None]
  have newest: "a_folder ''2024-01-04_09-30-00'' 1704360600 \<in> set example_screenshots"
    "isdir (a_folder ''2024-01-04_09-30-00'' 1704360600)"
    by code_simp+
  have "\<not> (\<exists>r\<in>set (take (nat 2) (report_files (reports_dir example_world))).
      sublist (report_timestamp strftime_utc r) (name (a_folder ''2024-01-04_09-30-00'' 1704360600)))"
    by code_simp
  then have gone: "a_folder ''2024-01-04_09-30-00'' 1704360600 \<notin> set ?after"
    using claim newest by blast
  have "map name ?after = [''2024-01-03_10-00-00'', ''README'', ''2024-01-02_10-00-00'']"
    by code_simp
  then show ?thesis
    using gone by simp
qed

text \<open>
  C2.  The claim is about every window \<open>N\<close>.  The code reads the window with
  \<^verbatim>\<open>reports_to_match or REPORTING_SETTINGS["max_reports_to_keep"]\<close>, and 0 is
  falsy.  With \<^verbatim>\<open>reports_to_match = 0\<close> no report is among the 0 most recent ones,
  so the claim (and the docstring, "Number of recent reports to match against")
  has every folder deleted.  The code takes the window 5: in \<open>zero_window_world\<close>,
  with one report and the folder of its run, the folder stays and nothing is deleted.
  In every state a window of 0 does what a window of 5 does.
\<close>

theorem zero_window_matches_the_default_number:
  "cleanup_screenshots strftime_utc ''match_reports'' None (Some 0) zero_window_world =
     (Returned, zero_window_world\<lparr>logged := [(INFO, Matching 5)]\<rparr>)
 \<and> map name (entries (screenshots_dir
       (snd (cleanup_screenshots strftime_utc ''match_reports'' None (Some 0)
              zero_window_world)))) = [''2024-01-01_10-00-00'']
 \<and> cleanup_screenshots fmt ''match_reports'' max_screenshots (Some 0) w =
     cleanup_screenshots fmt ''match_reports'' max_screenshots (Some 5) w"
proof -
  have "cleanup_screenshots strftime_utc ''match_reports'' None (Some 0) zero_window_world =
     (Returned, zero_window_world\<lparr>logged := [(INFO, Matching 5)]\<rparr>)"
    by code_simp
  moreover have "map name (entries (screenshots_dir
       (snd (cleanup_screenshots strftime_utc ''match_reports'' None (Some 0)
              zero_window_world)))) = [''2024-01-01_10-00-00'']"
    by code_simp
  moreover have "or_default (Some 0) 5 = or_default (Some 5) 5"
    by (simp add: or_default_def)
  ultimately show ?thesis
    by (simp add: cleanup_screenshots_def cleanup_screenshots_match_reports_def
        max_reports_to_keep_def)
qed

text \<open>
  The token is what follows the first \<^verbatim>\<open>_\<close> of the name.  With the prefix that the
  configuration gives to report names (\<^verbatim>\<open>report_prefix = "playwright_report_"\<close>), the
  token of \<^verbatim>\<open>playwright_report_2024-01-01_10-00-00.html\<close> is
  \<^verbatim>\<open>report_2024-01-01_10-00-00\<close>, not the timestamp, and a screenshot folder named by
  the timestamp of the run does not contain it: the folder of the run is deleted.
\<close>

lemma prefixed_report_token:
  "report_timestamp fmt (a_file ''playwright_report_2024-01-01_10-00-00.html'' 1704103200) =
     ''report_2024-01-01_10-00-00''
 \<and> cleanup_screenshots strftime_utc ''match_reports'' None None prefixed_report_world =
     (Returned, prefixed_report_world\<lparr>screenshots_dir := Directory [],
        logged := [(INFO, Matching 5), (INFO, Deleted Screenshots ''2024-01-01_10-00-00'')]\<rparr>)"
proof -
  have "name (a_file ''playwright_report_2024-01-01_10-00-00.html'' 1704103200) =
      ''playwright'' @ CHR ''_'' # ''report_2024-01-01_10-00-00'' @ CHR ''.'' # ''html''"
    by (simp add: a_file_def)
  then have "report_timestamp fmt
      (a_file ''playwright_report_2024-01-01_10-00-00.html'' 1704103200) =
     ''report_2024-01-01_10-00-00''"
    by (rule report_timestamp_parsed) simp_all
  moreover have
    "cleanup_screenshots strftime_utc ''match_reports'' None None prefixed_report_world =
     (Returned, prefixed_report_world\<lparr>screenshots_dir := Directory [],
        logged := [(INFO, Matching 5), (INFO, Deleted Screenshots ''2024-01-01_10-00-00'')]\<rparr>)"
    by code_simp
  ultimately show ?thesis
    by simp
qed

subsection \<open>C3: the last-execution strategy\<close>

text \<open>
  C3.  Under the strategy \<^verbatim>\<open>last_execution\<close> with a positive cap \<open>K\<close>, on a screenshots
  root whose subdirectories have distinct creation times, if no deletion fails, the
  operation returns; the subdirectories that remain are the first \<open>K\<close> in descending
  order of creation time, \<open>min count K\<close> of them; every folder beyond index \<open>K - 1\<close>
  in that order is gone, and nothing else is; every folder that stays was created
  after every folder that went.
\<close>

theorem last_execution_keeps_newest:
  assumes dir: "screenshots_dir w = Directory es"
    and names: "distinct (map name es)"
    and K: "0 < K"
    and times: "distinct (map ctime (filter isdir es))"
    and no_failure: "\<forall>e\<in>set (drop (nat K) (newest_folders es)). can_rmtree e"
  shows "fst (cleanup_screenshots fmt ''last_execution'' (Some K) rtm w) = Returned
    \<and> entries (screenshots_dir (snd (cleanup_screenshots fmt ''last_execution'' (Some K) rtm w))) =
        filter (\<lambda>e. e \<notin> set (drop (nat K) (newest_folders es))) es
    \<and> newest_folders
        (entries (screenshots_dir (snd (cleanup_screenshots fmt ''last_execution'' (Some K) rtm w)))) =
        take (nat K) (newest_folders es)
    \<and> length (filter isdir
        (entries (screenshots_dir (snd (cleanup_screenshots fmt ''last_execution'' (Some K) rtm w))))) =
        min (length (filter isdir es)) (nat K)
    \<and> (\<forall>a\<in>set (take (nat K) (newest_folders es)).
        \<forall>b\<in>set (drop (nat K) (newest_folders es)). ctime b < ctime a)"
proof -
  let ?S = "newest_folders es"
  let ?w' = "snd (cleanup_screenshots fmt ''last_execution'' (Some K) rtm w)"
  have keep: "or_default (Some K) max_screenshots_to_keep = K"
    using K by (simp add: or_default_pos)
  have tail: "beyond K ?S = drop (nat K) ?S"
    using K by (simp add: beyond_nonneg)
  have run: "cleanup_screenshots fmt ''last_execution'' (Some K) rtm w =
      (Returned, w\<lparr>screenshots_dir := Directory (filter (\<lambda>e. e \<notin> set (drop (nat K) ?S)) es),
         logged := logged w @ (INFO, Keeping Screenshots K) #
                     map (rmtree_line Screenshots) (drop (nat K) ?S)\<rparr>)"
    using cleanup_screenshots_last_execution_Directory [OF dir names, of "Some K"] no_failure
    by (simp add: cleanup_screenshots_last_execution_eq [OF dir] keep tail filter_all_removable)
  have after: "newest_folders (entries (screenshots_dir ?w')) = take (nat K) ?S"
    using newest_folders_distinct [OF names]
    by (simp add: run entries_def newest_folders_filter keep_newest)
  have "length (newest_folders (entries (screenshots_dir ?w'))) = min (length ?S) (nat K)"
    by (simp add: after)
  then have count: "length (filter isdir (entries (screenshots_dir ?w'))) =
      min (length (filter isdir es)) (nat K)"
    by (simp add: newest_folders_def)
  have order: "\<forall>a\<in>set (take (nat K) ?S). \<forall>b\<in>set (drop (nat K) ?S). ctime b < ctime a"
  proof (intro ballI)
    fix a b
    assume a: "a \<in> set (take (nat K) ?S)" and b: "b \<in> set (drop (nat K) ?S)"
    have "ctime b \<le> ctime a"
      using a b unfolding newest_folders_def by (rule sort_reverse_take_drop)
    moreover have "set (take (nat K) ?S) \<inter> set (drop (nat K) ?S) = {}"
      using newest_folders_distinct [OF names]
      by (rule set_take_disj_set_drop_if_distinct) simp
    then have "a \<noteq> b"
      using a b by auto
    moreover have "a \<in> set (filter isdir es)" "b \<in> set (filter isdir es)"
      using in_set_takeD [OF a] in_set_dropD [OF b] by (simp_all add: newest_folders_def)
    then have "ctime a \<noteq> ctime b"
      using times \<open>a \<noteq> b\<close> by (auto simp: distinct_map dest: inj_onD)
    ultimately show "ctime b < ctime a"
      by simp
  qed
  show ?thesis
    using after count order by (simp add: run entries_def)
qed

theorem last_execution_keeps_newest_witness:
  "map name (entries (screenshots_dir
      (snd (cleanup_screenshots strftime_utc ''last_execution'' (Some 2) None example_world)))) =
     [''2024-01-03_10-00-00'', ''README'', ''2024-01-04_09-30-00'']"
proof -
  have dir: "screenshots_dir example_world = Directory example_screenshots"
    by (simp add: example_world_def)
  have names: "distinct (map name example_screenshots)"
    by code_simp
  have K: "(0::int) < 2"
    by simp
  have times: "distinct (map ctime (filter isdir example_screenshots))"
    by code_simp
  have no_failure: "\<forall>e\<in>set (drop (nat 2) (newest_folders example_screenshots)). can_rmtree e"
    by code_simp
  have "map name (filter (\<lambda>e. e \<notin> set (drop (nat 2) (newest_folders example_screenshots)))
      example_screenshots) = [''2024-01-03_10-00-00'', ''README'', ''2024-01-04_09-30-00'']"
    by code_simp
  moreover have "entries (screenshots_dir
      (snd (cleanup_screenshots strftime_utc ''last_execution'' (Some 2) None example_world))) =
      filter (\<lambda>e. e \<notin> set (drop (nat 2) (newest_folders example_screenshots))) example_screenshots"
    using last_execution_keeps_newest [OF dir names K times no_failure] by blast
  ultimately show ?thesis
    by simp
qed

subsection \<open>C4: a retention count of zero\<close>

text \<open>
  C4.  The claim is that a count of 0 deletes every matching entry.  The code reads
  the count with \<^verbatim>\<open>max_reports or REPORTING_SETTINGS["max_reports_to_keep"]\<close>, and 0
  is falsy: with six reports and \<^verbatim>\<open>max_reports = 0\<close> the five newest stay.  In
  every state a count of 0 does what a count of 5 does, in all three operations that
  take a count.
\<close>

theorem zero_count_keeps_the_default_number:
  "map name (entries (reports_dir (snd (cleanup_reports (Some 0) six_reports_world)))) =
     [''report_2.html'', ''report_3.html'', ''report_4.html'', ''report_5.html'',
      ''report_6.html'']
 \<and> cleanup_reports (Some 0) w = cleanup_reports (Some 5) w
 \<and> cleanup_logs (Some 0) w = cleanup_logs (Some 5) w
 \<and> cleanup_screenshots_last_execution (Some 0) w =
     cleanup_screenshots_last_execution (Some 5) w"
proof -
  have "map name (entries (reports_dir (snd (cleanup_reports (Some 0) six_reports_world)))) =
     [''report_2.html'', ''report_3.html'', ''report_4.html'', ''report_5.html'',
      ''report_6.html'']"
    by code_simp
  moreover have "or_default (Some 0) 5 = or_default (Some 5) 5"
    by (simp add: or_default_def)
  ultimately show ?thesis
    by (simp add: cleanup_reports_def cleanup_logs_def cleanup_screenshots_last_execution_def
        max_reports_to_keep_def max_screenshots_to_keep_def)
qed

subsection \<open>C5: running a cleanup twice\<close>

text \<open>
  C5.  For a keep count that is absent or not negative, running the clean-reports
  operation again on the state it has left changes no directory: the second run
  deletes nothing.  The same holds for the clean-logs operation.  (A deletion that
  failed in the first run fails again in the second.)
\<close>

theorem cleanup_twice_is_cleanup_once:
  assumes "names_distinct (reports_dir w)" and "names_distinct (logs_dir w)"
    and "non_negative keep_count"
  shows "filesystem (snd (cleanup_reports keep_count (snd (cleanup_reports keep_count w)))) =
           filesystem (snd (cleanup_reports keep_count w))
       \<and> filesystem (snd (cleanup_logs keep_count (snd (cleanup_logs keep_count w)))) =
           filesystem (snd (cleanup_logs keep_count w))"
  using assms by (simp add: cleanup_reports_twice cleanup_logs_twice)

theorem cleanup_twice_is_cleanup_once_witness:
  "filesystem (snd (cleanup_reports (Some 1) (snd (cleanup_reports (Some 1) locked_world)))) =
     filesystem (snd (cleanup_reports (Some 1) locked_world))
   \<and> filesystem (snd (cleanup_logs (Some 1) (snd (cleanup_logs (Some 1) locked_world)))) =
     filesystem (snd (cleanup_logs (Some 1) locked_world))
   \<and> map name (entries (logs_dir (snd (cleanup_logs (Some 1) locked_world)))) =
     [''test_execution_2024-01-02_10-00-00.log'', ''test_execution_2024-01-03_10-00-00.log'']"
proof -
  have r: "names_distinct (reports_dir locked_world)"
    by code_simp
  have l: "names_distinct (logs_dir locked_world)"
    by code_simp
  have k: "non_negative (Some 1)"
    by (simp add: non_negative_def)
  have "map name (entries (logs_dir (snd (cleanup_logs (Some 1) locked_world)))) =
     [''test_execution_2024-01-02_10-00-00.log'', ''test_execution_2024-01-03_10-00-00.log'']"
    by code_simp
  then show ?thesis
    using cleanup_twice_is_cleanup_once [OF r l k] by simp
qed

subsection \<open>C6: errors that leave an operation\<close>

text \<open>
  The first half of the claim holds: every deleting call is inside a \<^verbatim>\<open>try\<close> whose
  handler logs the error, and the loop goes on.  In \<open>locked_world\<close> the second-newest
  report cannot be deleted; with a count of 1 the loop fails on it, logs the error and
  then deletes the oldest report.
\<close>

lemma failed_removal_is_logged_and_skipped:
  "cleanup_reports (Some 1) locked_world =
     (Returned, locked_world\<lparr>reports_dir := Directory
          [locked (a_file ''report_2024-01-02_10-00-00.html'' 1704189600),
           a_file ''reportfinal.html'' 1704276000],
        logged := [(INFO, Keeping Reports 1),
          (ERROR, Delete_failed Reports ''report_2024-01-02_10-00-00.html'' PermissionError),
          (INFO, Deleted Reports ''report_2024-01-01_10-00-00.html'')]\<rparr>)"
  by code_simp

text \<open>
  C6.  The claim is that no file-system error ever leaves an operation.  The code
  guards the deleting calls only.  The clean-screenshots operation tests its root with
  \<^verbatim>\<open>os.path.exists\<close> and then calls \<^verbatim>\<open>os.listdir\<close> outside every \<^verbatim>\<open>try\<close>: when the
  screenshots path exists and is a regular file, the test lets the operation pass and
  \<^verbatim>\<open>os.listdir\<close> raises NotADirectoryError, under both strategies, with nothing in
  the log but the opening line.  The clean-reports and the clean-logs operation, in the
  same situation for their roots, return: \<^verbatim>\<open>glob.glob\<close> gives the empty list there.
\<close>

theorem listdir_error_leaves_cleanup_screenshots:
  "cleanup_screenshots strftime_utc ''match_reports'' None None files_as_roots_world =
     (Raised NotADirectoryError, files_as_roots_world\<lparr>logged := [(INFO, Matching 5)]\<rparr>)
 \<and> cleanup_screenshots strftime_utc ''last_execution'' None None files_as_roots_world =
     (Raised NotADirectoryError,
      files_as_roots_world\<lparr>logged := [(INFO, Keeping Screenshots 5)]\<rparr>)
 \<and> cleanup_reports None files_as_roots_world =
     (Returned, files_as_roots_world\<lparr>logged := [(INFO, Keeping Reports 5)]\<rparr>)
 \<and> cleanup_logs None files_as_roots_world =
     (Returned, files_as_roots_world\<lparr>logged := [(INFO, Keeping Logs 5)]\<rparr>)"
  by code_simp

subsection \<open>C7: an unknown strategy\<close>

text \<open>
  C7 as stated fails.  It promises a log entry at level ERROR for every unknown
  strategy.  The check
  for the screenshots root comes before the dispatch on the strategy: when the root
  is missing, the operation logs at level INFO that it is missing and returns, whatever
  the strategy is.
\<close>

theorem unknown_strategy_missing_root_counterexample:
  "''weekly'' \<notin> {''match_reports'', ''last_execution''}
 \<and> cleanup_screenshots strftime_utc ''weekly'' None None empty_world =
     (Returned, empty_world\<lparr>logged := [(INFO, Dir_missing Screenshots)]\<rparr>)
 \<and> map fst (logged (snd (cleanup_screenshots strftime_utc ''weekly'' None None empty_world))) =
     [INFO]"
  by (simp add: cleanup_screenshots_def path_exists_def info_def empty_world_def)

text \<open>
  C7, amended.  For every strategy other than \<^verbatim>\<open>match_reports\<close> and
  \<^verbatim>\<open>last_execution\<close> the clean-screenshots operation returns, leaves the three
  directories as they are and adds one line to the log: at level ERROR, naming the
  strategy, when the screenshots root exists; at level INFO, saying that the root is
  missing, when it does not.
\<close>

theorem unknown_strategy_is_reported:
  assumes "strategy \<notin> {''match_reports'', ''last_execution''}"
  shows "cleanup_screenshots fmt strategy max_screenshots reports_to_match w =
     (Returned, w\<lparr>logged := logged w @
        [if path_exists (screenshots_dir w) then (ERROR, Unknown_strategy strategy)
         else (INFO, Dir_missing Screenshots)]\<rparr>)"
  using assms by (simp add: cleanup_screenshots_def info_def log_error_def)

theorem unknown_strategy_is_reported_witness:
  "cleanup_screenshots strftime_utc ''weekly'' None None example_world =
     (Returned, example_world\<lparr>logged := [(ERROR, Unknown_strategy ''weekly'')]\<rparr>)"
proof -
  have "''weekly'' \<notin> {''match_reports'', ''last_execution''}"
    by simp
  moreover have "path_exists (screenshots_dir example_world)" "logged example_world = []"
    by (simp_all add: example_world_def path_exists_def)
  ultimately show ?thesis
    using unknown_strategy_is_reported [of "''weekly''" strftime_utc None None example_world]
    by simp
qed

subsection \<open>C8: a missing root directory\<close>

text \<open>
  C8.  When the root directory of an operation (reports, logs, screenshots) does not
  exist, the operation returns, leaves the state as it is except for the log, and adds
  exactly one line to the log, at level INFO.
\<close>

theorem missing_directory_is_a_no_op:
  "(reports_dir w = Missing \<longrightarrow>
      cleanup_reports max_reports w =
        (Returned, w\<lparr>logged := logged w @ [(INFO, Dir_missing Reports)]\<rparr>))
 \<and> (logs_dir w = Missing \<longrightarrow>
      cleanup_logs max_logs w =
        (Returned, w\<lparr>logged := logged w @ [(INFO, Dir_missing Logs)]\<rparr>))
 \<and> (screenshots_dir w = Missing \<longrightarrow>
      cleanup_screenshots fmt strategy max_screenshots reports_to_match w =
        (Returned, w\<lparr>logged := logged w @ [(INFO, Dir_missing Screenshots)]\<rparr>))"
  by (simp add: cleanup_reports_Missing cleanup_logs_Missing cleanup_screenshots_def
      path_exists_def info_def)

theorem missing_directory_is_a_no_op_witness:
  "cleanup_reports (Some 1) empty_world =
     (Returned, empty_world\<lparr>logged := [(INFO, Dir_missing Reports)]\<rparr>)
 \<and> cleanup_logs (Some 1) empty_world =
     (Returned, empty_world\<lparr>logged := [(INFO, Dir_missing Logs)]\<rparr>)
 \<and> cleanup_screenshots strftime_utc ''last_execution'' (Some 1) None empty_world =
     (Returned, empty_world\<lparr>logged := [(INFO, Dir_missing Screenshots)]\<rparr>)"
proof -
  have "reports_dir empty_world = Missing" "logs_dir empty_world = Missing"
    "screenshots_dir empty_world = Missing" "logged empty_world = []"
    by (simp_all add: empty_world_def)
  then show ?thesis
    using missing_directory_is_a_no_op [of empty_world "Some 1" "Some 1" strftime_utc
        "''last_execution''" "Some 1" None]
    by simp
qed

subsection \<open>C9: the fallback token\<close>

text \<open>
  C9.  Under the strategy \<^verbatim>\<open>match_reports\<close> with a positive window \<open>N\<close>, a report among
  the \<open>N\<close> most recent whose name has no \<^verbatim>\<open>_\<close> contributes its modification time,
  formatted, as its token, and a folder of the screenshots root whose name contains
  that token is still there after the operation (whether or not any deletion
  fails).
\<close>

theorem fallback_token_keeps_folder:
  assumes dir: "screenshots_dir w = Directory es"
    and names: "distinct (map name es)"
    and N: "0 < N"
    and r: "r \<in> set (take (nat N) (report_files (reports_dir w)))"
    and no_separator: "CHR ''_'' \<notin> set (name r)"
    and f: "f \<in> set es" "isdir f" "sublist (fmt (mtime r)) (name f)"
  shows "report_timestamp fmt r = fmt (mtime r)
    \<and> fmt (mtime r) \<in> set (report_timestamps fmt N (reports_dir w))
    \<and> fst (cleanup_screenshots fmt ''match_reports'' ms (Some N) w) = Returned
    \<and> f \<in> set (entries (screenshots_dir
              (snd (cleanup_screenshots fmt ''match_reports'' ms (Some N) w))))"
proof -
  let ?tss = "report_timestamps fmt N (reports_dir w)"
  have keep: "or_default (Some N) max_reports_to_keep = N"
    using N by (simp add: or_default_pos)
  have token: "report_timestamp fmt r = fmt (mtime r)"
    using no_separator by (rule report_timestamp_fallback)
  have "report_timestamp fmt r \<in> set ?tss"
    using r N by (simp add: report_timestamps_def slice_to_def)
  then have used: "fmt (mtime r) \<in> set ?tss"
    by (simp add: token)
  then have "match_found ?tss (name f)"
    using f(3) by (auto simp: match_found_iff)
  then have "f \<notin> set (unmatched ?tss es)"
    by (simp add: in_unmatched)
  then show ?thesis
    using cleanup_screenshots_match_reports_Directory [OF dir names, of fmt "Some N"] f(1)
      token used
    by (simp add: cleanup_screenshots_match_reports_eq [OF dir] keep entries_def)
qed

theorem fallback_token_keeps_folder_witness:
  "report_timestamp strftime_utc (a_file ''reportfinal.html'' 1704276000) = ''2024-01-03_10-00-00''
   \<and> a_folder ''2024-01-03_10-00-00'' 1704276000 \<in> set (entries (screenshots_dir
       (snd (cleanup_screenshots strftime_utc ''match_reports'' None (Some 1) example_world))))"
proof -
  have dir: "screenshots_dir example_world = Directory example_screenshots"
    by (simp add: example_world_def)
  have names: "distinct (map name example_screenshots)"
    by code_simp
  have N: "(0::int) < 1"
    by simp
  have r: "a_file ''reportfinal.html'' 1704276000
      \<in> set (take (nat 1) (report_files (reports_dir example_world)))"
    by code_simp
  have no_separator: "CHR ''_'' \<notin> set (name (a_file ''reportfinal.html'' 1704276000))"
    by code_simp
  have stamp: "strftime_utc (mtime (a_file ''reportfinal.html'' 1704276000)) = ''2024-01-03_10-00-00''"
    by code_simp
  have f: "a_folder ''2024-01-03_10-00-00'' 1704276000 \<in> set example_screenshots"
    "isdir (a_folder ''2024-01-03_10-00-00'' 1704276000)"
    "sublist (strftime_utc (mtime (a_file ''reportfinal.html'' 1704276000)))
       (name (a_folder ''2024-01-03_10-00-00'' 1704276000))"
    by code_simp+
  show ?thesis
    using fallback_token_keeps_folder [where fmt = strftime_utc and ms = None,
        OF dir names N r no_separator f] stamp
    by simp
qed

subsection \<open>C10: no reports at all\<close>

text \<open>
  C10.  Under the strategy \<^verbatim>\<open>match_reports\<close>, when the reports directory is missing or
  \<^verbatim>\<open>*.html\<close> matches nothing in it, the list of tokens is empty and
  \<^verbatim>\<open>shutil.rmtree\<close> is called on every immediate subdirectory of the screenshots
  root, in listing order: the log has one line for each, and the only folders left
  are those whose deletion failed.  If every folder can be deleted, only the entries
  that are not directories remain.
\<close>

theorem no_reports_deletes_every_folder:
  assumes dir: "screenshots_dir w = Directory es"
    and names: "distinct (map name es)"
    and no_reports: "reports_dir w = Missing \<or> glob (reports_dir w) ''*.html'' = []"
  shows "report_timestamps fmt (or_default rtm max_reports_to_keep) (reports_dir w) = []
    \<and> cleanup_screenshots fmt ''match_reports'' ms rtm w =
        (Returned, w\<lparr>screenshots_dir := Directory (filter (\<lambda>e. \<not> can_rmtree e) es),
           logged := logged w @ (INFO, Matching (or_default rtm max_reports_to_keep)) #
                       map (rmtree_line Screenshots) (filter isdir es)\<rparr>)
    \<and> ((\<forall>e\<in>set es. isdir e \<longrightarrow> removable e) \<longrightarrow>
         entries (screenshots_dir (snd (cleanup_screenshots fmt ''match_reports'' ms rtm w))) =
           filter (\<lambda>e. \<not> isdir e) es)"
proof -
  let ?K = "or_default rtm max_reports_to_keep"
  have "glob (reports_dir w) ''*.html'' = []"
    using no_reports by (rule glob_no_reports)
  then have "report_files (reports_dir w) = []"
    by (simp add: report_files_def sort_reverse_def)
  then have tokens: "report_timestamps fmt ?K (reports_dir w) = []"
    by (simp add: report_timestamps_def slice_to_def)
  have all: "unmatched [] es = filter isdir es"
    by (simp add: unmatched_def)
  have "filter (\<lambda>e. \<not> (e \<in> set (filter isdir es) \<and> can_rmtree e)) es =
      filter (\<lambda>e. \<not> can_rmtree e) es"
    by (intro filter_cong) (auto simp: can_rmtree_def isdir_def)
  then have run: "cleanup_screenshots fmt ''match_reports'' ms rtm w =
        (Returned, w\<lparr>screenshots_dir := Directory (filter (\<lambda>e. \<not> can_rmtree e) es),
           logged := logged w @ (INFO, Matching ?K) #
                       map (rmtree_line Screenshots) (filter isdir es)\<rparr>)"
    using cleanup_screenshots_match_reports_Directory [OF dir names, of fmt rtm]
    by (simp add: cleanup_screenshots_match_reports_eq [OF dir] tokens all)
  have "filter (\<lambda>e. \<not> can_rmtree e) es = filter (\<lambda>e. \<not> isdir e) es"
    if "\<forall>e\<in>set es. isdir e \<longrightarrow> removable e"
    using that by (intro filter_cong) (auto simp: can_rmtree_def isdir_def)
  then show ?thesis
    using tokens by (simp add: run entries_def)
qed

theorem no_reports_deletes_every_folder_witness:
  "cleanup_screenshots strftime_utc ''match_reports'' None None no_reports_world =
     (Returned, no_reports_world\<lparr>screenshots_dir := Directory [a_file ''README'' 1704000000],
        logged := [(INFO, Matching 5),
                   (INFO, Deleted Screenshots ''2024-01-01_10-00-00''),
                   (INFO, Deleted Screenshots ''2024-01-03_10-00-00''),
                   (INFO, Deleted Screenshots ''2024-01-04_09-30-00''),
                   (INFO, Deleted Screenshots ''2024-01-02_10-00-00'')]\<rparr>)"
proof -
  have dir: "screenshots_dir no_reports_world = Directory example_screenshots"
    by (simp add: no_reports_world_def)
  have names: "distinct (map name example_screenshots)"
    by code_simp
  have no_reports: "reports_dir no_reports_world = Missing
      \<or> glob (reports_dir no_reports_world) ''*.html'' = []"
    by (simp add: no_reports_world_def)
  have "filter (\<lambda>e. \<not> can_rmtree e) example_screenshots = [a_file ''README'' 1704000000]"
    by code_simp
  moreover have "map (rmtree_line Screenshots) (filter isdir example_screenshots) =
      [(INFO, Deleted Screenshots ''2024-01-01_10-00-00''),
       (INFO, Deleted Screenshots ''2024-01-03_10-00-00''),
       (INFO, Deleted Screenshots ''2024-01-04_09-30-00''),
       (INFO, Deleted Screenshots ''2024-01-02_10-00-00'')]"
    by code_simp
  moreover have "or_default None max_reports_to_keep = 5" "logged no_reports_world = []"
    by (simp_all add: or_default_def max_reports_to_keep_def no_reports_world_def)
  ultimately show ?thesis
    using no_reports_deletes_every_folder [OF dir names no_reports, of strftime_utc None None]
    by simp
qed

end
